theory Spec2Isabelle
  imports Complex_Main
begin

section \<open>The secret store of src/endpoints/secrets.js\<close>

text \<open>
  The server keeps one file, secrets.json, per user directory. Every function of
  secrets.js reads that file, works on the parsed value and, when it changes something,
  writes the whole value back. The model passes the state of that one file explicitly.

  Conventions of the embedding:
  \<^item> an object is the map of its own properties; a property that is not its own is looked
    up in \<open>Object.prototype\<close>, whose twelve member names are listed below;
  \<^item> a string is a list of code units below 256, so \<open>trim\<close> and \<open>toLowerCase\<close>
    are the Latin-1 part of the JavaScript functions;
  \<^item> keys, comments and the values handed to \<open>writeSecret\<close> and \<open>appendManagedKey\<close>
    by a caller are strings, as the JSDoc comments declare; the index of
    \<open>spliceManagedKey\<close> is whatever the request carries, seen through \<open>ToNumber\<close>,
    and the search of \<open>rotateManagedSecret\<close> is a number, a string or neither;
  \<^item> a file that parses holds a document object with the shape of the typedef
    \<open>SecretState\<close>, or \<open>null\<close>, a number or a boolean. A file that holds a JSON array or
    a JSON string loads as what it holds, too, but is outside the model: what a key reads
    on it depends on the members of \<open>Array.prototype\<close> and \<open>String.prototype\<close>, which
    vary with the runtime.
\<close>

subsection \<open>Values\<close>

text \<open>
  \<open>ManagedKey\<close> is the typedef of the source, \<open>{comment, value}\<close>. Its value is
  declared a string, but the migrate handler pushes whatever \<open>readSecret\<close> returned,
  which is \<open>undefined\<close> for a missing key, the managed object itself for the key
  \<open>managed\<close>, and a member of \<open>Object.prototype\<close> for a key that names one.

  \<open>Function\<close> stands for a function inherited from a prototype and \<open>Prototype\<close> for
  the prototype object that the accessor \<open>__proto__\<close> returns. Both exist in memory only.
\<close>

datatype 'v ManagedKey = ManagedKey (comment: string) (val: 'v)

datatype jsval =
    Undefined
  | Str string
  | Obj "string \<Rightarrow> jsval ManagedKey list option"
  | Function
  | Prototype

type_synonym SecretState = "string \<Rightarrow> jsval option"

text \<open>
  The own property names of \<open>Object.prototype\<close>: eleven functions and the accessor
  \<open>__proto__\<close>. \<open>Number.prototype\<close> adds three functions of its own;
  \<open>Boolean.prototype\<close> adds none.
\<close>

definition Object_prototype_functions :: "string list" where
  "Object_prototype_functions =
     [''constructor'', ''__defineGetter__'', ''__defineSetter__'', ''hasOwnProperty'',
      ''__lookupGetter__'', ''__lookupSetter__'', ''isPrototypeOf'',
      ''propertyIsEnumerable'', ''toString'', ''valueOf'', ''toLocaleString'']"

definition Object_prototype_names :: "string list" where
  "Object_prototype_names = ''__proto__'' # Object_prototype_functions"

definition Number_prototype_functions :: "string list" where
  "Number_prototype_functions = [''toExponential'', ''toFixed'', ''toPrecision'']"

definition inherited :: "string \<Rightarrow> jsval" where
  "inherited key =
     (if key = ''__proto__'' then Prototype
      else if key \<in> set Object_prototype_functions then Function
      else Undefined)"

text \<open>\<open>secrets[key]\<close> on an object: its own property, else the inherited one.\<close>

definition property :: "SecretState \<Rightarrow> string \<Rightarrow> jsval" where
  "property secrets key = (case secrets key of None \<Rightarrow> inherited key | Some v \<Rightarrow> v)"

text \<open>
  \<open>secrets[key] = v\<close> on an object. For \<open>__proto__\<close> that is not an own property the
  assignment runs the setter of the accessor, which stores nothing: it ignores a string
  and takes an object as the new prototype, of which no function here reads afterwards.
\<close>

definition assign :: "SecretState \<Rightarrow> string \<Rightarrow> jsval \<Rightarrow> SecretState" where
  "assign secrets key v =
     (if key = ''__proto__'' \<and> secrets key = None then secrets else secrets(key \<mapsto> v))"

text \<open>
  Truthiness, as \<open>!x\<close> decides it: \<open>undefined\<close> and the empty string are falsy,
  objects and functions are truthy.
\<close>

fun truthy :: "jsval \<Rightarrow> bool" where
  "truthy Undefined = False"
| "truthy (Str s) = (s \<noteq> [])"
| "truthy (Obj m) = True"
| "truthy Function = True"
| "truthy Prototype = True"

text \<open>
  \<open>a === b\<close>. Two strings are equal when they have the same code units. Two objects are
  equal only when they are the same object, and the functions below never compare an object
  with itself: one side is the value of an entry of the parsed file, the other comes from
  a second parse of the file, is a different node of the same parse, or is a member of a
  prototype.
\<close>

fun strict_eq :: "jsval \<Rightarrow> jsval \<Rightarrow> bool" where
  "strict_eq Undefined Undefined = True"
| "strict_eq (Str a) (Str b) = (a = b)"
| "strict_eq _ _ = False"

text \<open>
  \<open>secrets.managed[key]\<close> when it is an array. An inherited member is not an array, and
  no property of a string (one of its characters, its length, a method) is one.
\<close>

fun managed_array :: "jsval \<Rightarrow> string \<Rightarrow> jsval ManagedKey list option" where
  "managed_array (Obj m) key = m key"
| "managed_array _ key = None"

subsection \<open>Strings\<close>

definition is_white_space :: "char \<Rightarrow> bool" where
  "is_white_space c = ((of_char c :: nat) \<in> {9, 10, 11, 12, 13, 32, 160})"

definition trim :: "string \<Rightarrow> string" where
  "trim s = rev (dropWhile is_white_space (rev (dropWhile is_white_space s)))"

definition lower_char :: "char \<Rightarrow> char" where
  "lower_char c =
     (let n = (of_char c :: nat)
      in if (65 \<le> n \<and> n \<le> 90) \<or> (192 \<le> n \<and> n \<le> 222 \<and> n \<noteq> 215)
         then char_of (n + 32) else c)"

definition toLowerCase :: "string \<Rightarrow> string" where
  "toLowerCase s = map lower_char s"

text \<open>\<open>Array.prototype.findIndex\<close>: the first position that satisfies the test, or -1.\<close>

fun findIndex :: "('a \<Rightarrow> bool) \<Rightarrow> 'a list \<Rightarrow> int" where
  "findIndex p [] = -1"
| "findIndex p (x # xs) =
     (if p x then 0 else (let i = findIndex p xs in if i < 0 then -1 else i + 1))"

text \<open>The decimal name of an array index, as \<open>Object.keys\<close> of a string lists them.\<close>

fun index_key :: "nat \<Rightarrow> string" where
  "index_key n =
     (if n < 10 then [char_of (48 + n)]
      else index_key (n div 10) @ [char_of (48 + n mod 10)])"

subsection \<open>Numbers\<close>

text \<open>
  The index of \<open>spliceManagedKey\<close> comes from the body of the request without a check.
  The function uses it in \<open>index < 0\<close>, in \<open>index >= length\<close> and as the start of
  \<open>splice\<close>, and all three see it through \<open>ToNumber\<close>. So the model takes the number:
  \<open>NaN\<close> for an absent index, an object or a string that is not a numeric literal,
  0 for \<open>null\<close>, \<open>false\<close> and the empty string, 1 for \<open>true\<close>.
\<close>

datatype number = NaN | Finite rat | Infinity | MinusInfinity

fun less_than_zero :: "number \<Rightarrow> bool" where
  "less_than_zero (Finite q) = (q < 0)"
| "less_than_zero MinusInfinity = True"
| "less_than_zero _ = False"

fun at_least :: "number \<Rightarrow> nat \<Rightarrow> bool" where
  "at_least (Finite q) n = (q \<ge> of_nat n)"
| "at_least Infinity n = True"
| "at_least _ n = False"

text \<open>
  \<open>ToIntegerOrInfinity\<close> for the numbers that pass both tests: \<open>NaN\<close> becomes 0 and a
  fraction is truncated.
\<close>

fun splice_start :: "number \<Rightarrow> nat" where
  "splice_start (Finite q) = nat \<lfloor>q\<rfloor>"
| "splice_start _ = 0"

subsection \<open>The file\<close>

text \<open>
  What \<open>JSON.parse\<close> can return here: \<open>null\<close>, a number, a boolean or a document object.
\<close>

datatype primitive = JNumber rat | JBoolean bool

datatype json = JNull | JPrimitive primitive | JObject SecretState

text \<open>
  The file is absent (\<open>None\<close>), or holds text that \<open>JSON.parse\<close> rejects, or holds the text
  \<open>JSON.stringify\<close> makes of a value.
\<close>

datatype contents = Unparseable | Parses json

type_synonym disk = "contents option"

datatype error = SyntaxError | TypeError

text \<open>
  What a value is after \<open>JSON.stringify\<close> and \<open>JSON.parse\<close>. A property whose value is
  \<open>undefined\<close> or a function is left out: an entry then has no \<open>value\<close>, which reads
  as \<open>undefined\<close>, and a document has no such key. \<open>Object.prototype\<close> has no enumerable
  property of its own and is written as \<open>{}\<close>.
\<close>

primrec JSON_value :: "jsval \<Rightarrow> jsval" where
  "JSON_value Undefined = Undefined"
| "JSON_value (Str s) = Str s"
| "JSON_value (Obj m) = Obj (map_option (map (map_ManagedKey JSON_value)) \<circ> m)"
| "JSON_value Function = Undefined"
| "JSON_value Prototype = Obj (\<lambda>key. None)"

definition JSON_object :: "SecretState \<Rightarrow> SecretState" where
  "JSON_object state =
     (\<lambda>key. case state key of
              None \<Rightarrow> None
            | Some v \<Rightarrow> (case JSON_value v of Undefined \<Rightarrow> None | w \<Rightarrow> Some w))"

fun JSON_parse_stringify :: "json \<Rightarrow> json" where
  "JSON_parse_stringify (JObject state) = JObject (JSON_object state)"
| "JSON_parse_stringify j = j"

definition INITIAL_STATE :: SecretState where
  "INITIAL_STATE = [''managed'' \<mapsto> Obj Map.empty]"

definition getSecretState :: "disk \<Rightarrow> error + json" where
  "getSecretState d =
     (case d of
        None \<Rightarrow> Inr (JObject INITIAL_STATE)
      | Some Unparseable \<Rightarrow> Inl SyntaxError
      | Some (Parses state) \<Rightarrow> Inr (JSON_parse_stringify state))"

definition updateSecretState :: "json \<Rightarrow> disk" where
  "updateSecretState state = Some (Parses state)"

subsection \<open>The ledger\<close>

text \<open>
  Each function starts with the value that \<open>getSecretState\<close> returns. On \<open>null\<close> every
  property access throws. On a number or a boolean a read goes to the prototype of the
  wrapper, an assignment throws (the file is a module, so strict) unless it reaches the
  setter of \<open>__proto__\<close>, and \<open>delete\<close> finds nothing to do.

  \<open>writeSecret\<close> is declared for a string, but \<open>rotateManagedSecret\<close> hands it the
  value of the selected entry, so it takes any value.
\<close>

fun inherited_primitive :: "primitive \<Rightarrow> string \<Rightarrow> jsval" where
  "inherited_primitive (JNumber q) key =
     (if key \<in> set Number_prototype_functions then Function else inherited key)"
| "inherited_primitive (JBoolean b) key = inherited key"

definition writeSecret :: "disk \<Rightarrow> string \<Rightarrow> jsval \<Rightarrow> error + disk" where
  "writeSecret d key v =
     (case getSecretState d of
        Inl e \<Rightarrow> Inl e
      | Inr JNull \<Rightarrow> Inl TypeError
      | Inr (JPrimitive p) \<Rightarrow>
          if key = ''__proto__'' then Inr (updateSecretState (JPrimitive p)) else Inl TypeError
      | Inr (JObject secrets) \<Rightarrow> Inr (updateSecretState (JObject (assign secrets key v))))"

definition deleteSecret :: "disk \<Rightarrow> string \<Rightarrow> error + disk" where
  "deleteSecret d key =
     (case getSecretState d of
        Inl e \<Rightarrow> Inl e
      | Inr JNull \<Rightarrow> Inl TypeError
      | Inr (JPrimitive p) \<Rightarrow> Inr (updateSecretState (JPrimitive p))
      | Inr (JObject secrets) \<Rightarrow> Inr (updateSecretState (JObject (secrets(key := None)))))"

definition readSecret :: "disk \<Rightarrow> string \<Rightarrow> error + jsval" where
  "readSecret d key =
     (case getSecretState d of
        Inl e \<Rightarrow> Inl e
      | Inr JNull \<Rightarrow> Inl TypeError
      | Inr (JPrimitive p) \<Rightarrow> Inr (inherited_primitive p key)
      | Inr (JObject secrets) \<Rightarrow> Inr (property secrets key))"

subsection \<open>The rotation engine\<close>

text \<open>
  The optional search argument of \<open>rotateManagedSecret\<close>: a number, a string, or
  anything else, the absent argument included (\<open>typeof searchValue\<close> tells the three
  apart). A number is used in \<open>searchValue >= 0\<close>, in \<open>searchValue < managed.length\<close>
  and as the property name in \<open>managed[searchValue]\<close>, which is an entry of the list
  only for an integer.

  The functions of this section read \<open>secrets.managed\<close> first. That throws on \<open>null\<close>
  and is \<open>undefined\<close> on a number or a boolean.
\<close>

datatype search = NoSearch | SearchNumber number | SearchString string

fun at_least_zero :: "number \<Rightarrow> bool" where
  "at_least_zero (Finite q) = (q \<ge> 0)"
| "at_least_zero Infinity = True"
| "at_least_zero _ = False"

fun less_than :: "number \<Rightarrow> nat \<Rightarrow> bool" where
  "less_than (Finite q) n = (q < of_nat n)"
| "less_than MinusInfinity n = True"
| "less_than _ n = False"

fun element :: "'a list \<Rightarrow> number \<Rightarrow> 'a option" where
  "element xs (Finite q) =
     (if q = of_int \<lfloor>q\<rfloor> \<and> 0 \<le> q \<and> q < of_nat (length xs)
      then Some (xs ! nat \<lfloor>q\<rfloor>) else None)"
| "element xs _ = None"

definition rotateManagedSecret :: "disk \<Rightarrow> string \<Rightarrow> search \<Rightarrow> error + disk" where
  "rotateManagedSecret d key searchValue =
     (case getSecretState d of
        Inl e \<Rightarrow> Inl e
      | Inr JNull \<Rightarrow> Inl TypeError
      | Inr (JPrimitive p) \<Rightarrow> Inr d
      | Inr (JObject secrets) \<Rightarrow>
          if \<not> truthy (property secrets ''managed'') then Inr d
          else
            (case managed_array (property secrets ''managed'') key of
               None \<Rightarrow> Inr d
             | Some managed \<Rightarrow>
                 if length managed = 0 then Inr d
                 else
                   let keyData0 =
                         (case searchValue of
                            SearchNumber n \<Rightarrow>
                              if at_least_zero n \<and> less_than n (length managed)
                              then element managed n else None
                          | _ \<Rightarrow> None);
                       keyData1 =
                         (case searchValue of
                            SearchString s \<Rightarrow>
                              if length (trim s) > 0
                              then find (\<lambda>k. toLowerCase (trim (comment k)) = toLowerCase (trim s))
                                     managed
                              else keyData0
                          | _ \<Rightarrow> keyData0)
                   in
                     (case keyData1 of
                        Some keyData \<Rightarrow> writeSecret d key (val keyData)
                      | None \<Rightarrow>
                          (case readSecret d key of
                             Inl e \<Rightarrow> Inl e
                           | Inr currentSecret \<Rightarrow>
                               let currentIndex =
                                     findIndex (\<lambda>k. strict_eq (val k) currentSecret) managed;
                                   keyData =
                                     (if currentIndex + 1 < int (length managed)
                                      then managed ! nat (currentIndex + 1)
                                      else managed ! 0)
                               in writeSecret d key (val keyData)))))"

text \<open>
  \<open>appendManagedKey\<close>. On a number or a boolean the assignment of \<open>{}\<close> to
  \<open>secrets.managed\<close> throws. On an object:
  \<^item> when \<open>secrets.managed\<close> is an object and \<open>secrets.managed[key]\<close> is falsy, which
    it is only for a key that is neither an own property nor a name of
    \<open>Object.prototype\<close>, the empty list is created; then \<open>push\<close> works on a list and
    throws on an inherited member, which has no \<open>push\<close>;
  \<^item> when \<open>secrets.managed\<close> is a non-empty string, either \<open>secrets.managed[key]\<close> is
    falsy and the assignment of \<open>[]\<close> to a property of a string throws, or it is a
    character, the length or a method and has no \<open>push\<close>: a TypeError both ways.
  A document that was loaded holds no function, so the last case is never reached.
\<close>

definition appendManagedKey ::
  "disk \<Rightarrow> string \<Rightarrow> string \<Rightarrow> jsval \<Rightarrow> error + disk" where
  "appendManagedKey d key cmt v =
     (case getSecretState d of
        Inl e \<Rightarrow> Inl e
      | Inr JNull \<Rightarrow> Inl TypeError
      | Inr (JPrimitive p) \<Rightarrow> Inl TypeError
      | Inr (JObject secrets0) \<Rightarrow>
          let secrets =
                (if \<not> truthy (property secrets0 ''managed'')
                 then assign secrets0 ''managed'' (Obj Map.empty) else secrets0)
          in
            (case property secrets ''managed'' of
               Obj m \<Rightarrow>
                 let m1 = (if m key = None \<and> \<not> truthy (inherited key)
                           then m(key \<mapsto> []) else m)
                 in
                   (case m1 key of
                      None \<Rightarrow> Inl TypeError
                    | Some xs \<Rightarrow>
                        Inr (updateSecretState
                               (JObject (assign secrets ''managed''
                                  (Obj (m1(key \<mapsto> xs @ [ManagedKey cmt v])))))))
             | Str s \<Rightarrow> Inl TypeError
             | _ \<Rightarrow> Inl TypeError))"

text \<open>
  \<open>spliceManagedKey\<close>. An index that is \<open>NaN\<close> fails both tests of the guard, and
  \<open>splice\<close> starts at 0 for it.
\<close>

definition spliceManagedKey :: "disk \<Rightarrow> string \<Rightarrow> number \<Rightarrow> error + disk" where
  "spliceManagedKey d key index =
     (case getSecretState d of
        Inl e \<Rightarrow> Inl e
      | Inr JNull \<Rightarrow> Inl TypeError
      | Inr (JPrimitive p) \<Rightarrow> Inr d
      | Inr (JObject secrets) \<Rightarrow>
          if \<not> truthy (property secrets ''managed'') then Inr d
          else
            (case property secrets ''managed'' of
               Obj m \<Rightarrow>
                 (case m key of
                    None \<Rightarrow> Inr d
                  | Some xs \<Rightarrow>
                      if less_than_zero index \<or> at_least index (length xs) then Inr d
                      else
                        let start = splice_start index
                        in Inr (updateSecretState
                             (JObject (assign secrets ''managed''
                                (Obj (m(key \<mapsto> take start xs @ drop (start + 1) xs)))))))
             | _ \<Rightarrow> Inr d))"

record probe_result =
  result :: bool
  index :: int

definition probeManagedKey :: "disk \<Rightarrow> string \<Rightarrow> error + probe_result" where
  "probeManagedKey d key =
     (case getSecretState d of
        Inl e \<Rightarrow> Inl e
      | Inr JNull \<Rightarrow> Inl TypeError
      | Inr (JPrimitive p) \<Rightarrow> Inr \<lparr>result = False, index = -1\<rparr>
      | Inr (JObject secrets) \<Rightarrow>
          if \<not> truthy (property secrets ''managed'') then Inr \<lparr>result = False, index = -1\<rparr>
          else
            (case managed_array (property secrets ''managed'') key of
               None \<Rightarrow> Inr \<lparr>result = False, index = -1\<rparr>
             | Some managed \<Rightarrow>
                 (case readSecret d key of
                    Inl e \<Rightarrow> Inl e
                  | Inr currentSecret \<Rightarrow>
                      let i = findIndex (\<lambda>k. strict_eq (val k) currentSecret) managed
                      in Inr \<lparr>result = (i \<noteq> -1), index = i\<rparr>)))"

text \<open>
  The redacted view. \<open>ManagedKeyState\<close> is \<open>ManagedKey\<close> without its value and with the
  flag \<open>selected\<close>; its comment is \<open>undefined\<close> (\<open>None\<close>) only for the characters of a
  string, see below.
\<close>

datatype ManagedKeyState = ManagedKeyState (state_comment: "string option") (selected: bool)

type_synonym SecretManagerState = "string \<Rightarrow> ManagedKeyState list option"

text \<open>
  The view is built in a fresh object \<open>state\<close> by \<open>state[key] = []\<close> and
  \<open>state[key].push(...)\<close>. For the key \<open>__proto__\<close> the assignment makes the list the
  prototype of \<open>state\<close> and creates no property, so the view has no such key.

  When \<open>secrets.managed\<close> is a non-empty string, \<open>Object.keys\<close> lists the indices of its
  characters, \<open>secrets.managed[key]\<close> is a string of one character, and the inner loop
  runs once over that character, which has neither a comment nor a value.
\<close>

definition readManagedSecretsState :: "disk \<Rightarrow> error + SecretManagerState" where
  "readManagedSecretsState d =
     (case getSecretState d of
        Inl e \<Rightarrow> Inl e
      | Inr JNull \<Rightarrow> Inl TypeError
      | Inr (JPrimitive p) \<Rightarrow> Inr Map.empty
      | Inr (JObject secrets) \<Rightarrow>
          if \<not> truthy (property secrets ''managed'') then Inr Map.empty
          else
            (case property secrets ''managed'' of
               Obj m \<Rightarrow>
                 Inr (\<lambda>key. if key = ''__proto__'' then None
                        else
                          (case m key of
                             None \<Rightarrow> None
                           | Some xs \<Rightarrow>
                               Some (map (\<lambda>secret.
                                       ManagedKeyState (Some (comment secret))
                                         (strict_eq (property secrets key) (val secret))) xs)))
             | Str s \<Rightarrow>
                 Inr (\<lambda>key. if key \<in> set (map index_key [0..<length s])
                        then Some [ManagedKeyState None
                                     (strict_eq (property secrets key) Undefined)]
                        else None)
             | _ \<Rightarrow> Inr Map.empty))"

subsection \<open>The flags and the handlers\<close>

definition SECRET_KEYS :: "string list" where
  "SECRET_KEYS =
     [''api_key_horde'', ''api_key_mancer'', ''api_key_vllm'', ''api_key_aphrodite'',
      ''api_key_tabby'', ''api_key_openai'', ''api_key_novel'', ''api_key_claude'',
      ''deepl'', ''libre'', ''libre_url'', ''lingva_url'', ''api_key_openrouter'',
      ''api_key_scale'', ''api_key_ai21'', ''scale_cookie'', ''oneringtranslator_url'',
      ''deeplx_url'', ''api_key_makersuite'', ''api_key_serpapi'', ''api_key_togetherai'',
      ''api_key_mistralai'', ''api_key_custom'', ''api_key_ooba'', ''api_key_infermaticai'',
      ''api_key_dreamgen'', ''api_key_nomicai'', ''api_key_koboldcpp'', ''api_key_llamacpp'',
      ''api_key_cohere'', ''api_key_perplexity'', ''api_key_groq'', ''api_key_azure_tts'',
      ''api_key_featherless'', ''api_key_01ai'', ''api_key_huggingface'',
      ''api_key_stability'', ''api_key_blockentropy'', ''api_key_custom_openai_tts'',
      ''api_key_tavily'', ''api_key_nanogpt'', ''api_key_bfl'', ''api_key_generic'',
      ''api_key_deepseek'']"

text \<open>
  \<open>readSecretState\<close> has its own copy of the load: an absent file gives \<open>{}\<close>, and a
  file that parses gives one flag for each key of the catalogue, \<open>!!secrets[key]\<close>.
\<close>

definition readSecretState :: "disk \<Rightarrow> error + (string \<times> bool) list" where
  "readSecretState d =
     (case d of
        None \<Rightarrow> Inr []
      | Some Unparseable \<Rightarrow> Inl SyntaxError
      | Some (Parses state) \<Rightarrow>
          (case JSON_parse_stringify state of
             JNull \<Rightarrow> Inl TypeError
           | JPrimitive p \<Rightarrow>
               Inr (map (\<lambda>key. (key, truthy (inherited_primitive p key)))
                      (filter (\<lambda>key. key \<noteq> ''managed'') SECRET_KEYS))
           | JObject secrets \<Rightarrow>
               Inr (map (\<lambda>key. (key, truthy (property secrets key)))
                      (filter (\<lambda>key. key \<noteq> ''managed'') SECRET_KEYS))))"

definition getAllSecrets :: "disk \<Rightarrow> error + json option" where
  "getAllSecrets d =
     (case d of
        None \<Rightarrow> Inr None
      | Some Unparseable \<Rightarrow> Inl SyntaxError
      | Some (Parses state) \<Rightarrow> Inr (Some (JSON_parse_stringify state)))"

text \<open>
  The handlers. A handler that lets an exception escape returns \<open>Inl\<close>; otherwise it
  returns what it sends and the file it leaves.
\<close>

datatype response = SendStatus nat | SendFlags "(string \<times> bool) list"

definition route_read :: "disk \<Rightarrow> response" where
  "route_read d =
     (case readSecretState d of
        Inr state \<Rightarrow> SendFlags state
      | Inl e \<Rightarrow> SendFlags [])"

definition route_migrate :: "disk \<Rightarrow> string \<Rightarrow> string \<Rightarrow> error + response \<times> disk" where
  "route_migrate d key cmt =
     (case probeManagedKey d key of
        Inl e \<Rightarrow> Inl e
      | Inr probeResult \<Rightarrow>
          if result probeResult then Inr (SendStatus 409, d)
          else
            (case readSecret d key of
               Inl e \<Rightarrow> Inl e
             | Inr currentSecret \<Rightarrow>
                 (case appendManagedKey d key cmt currentSecret of
                    Inl e \<Rightarrow> Inl e
                  | Inr d' \<Rightarrow> Inr (SendStatus 204, d'))))"

subsection \<open>Notions used to state the properties\<close>

text \<open>The managed list of a key: \<open>secrets.managed[key]\<close> when it is an array.\<close>

definition managed_list :: "SecretState \<Rightarrow> string \<Rightarrow> jsval ManagedKey list option" where
  "managed_list secrets key = managed_array (property secrets ''managed'') key"

text \<open>The lists of the managed object, empty when the field is not an object.\<close>

definition managed_map :: "SecretState \<Rightarrow> string \<Rightarrow> jsval ManagedKey list option" where
  "managed_map secrets = (case property secrets ''managed'' of Obj m \<Rightarrow> m | _ \<Rightarrow> Map.empty)"

text \<open>
  The field \<open>managed\<close> is absent, the empty string or an object: anything but a non-empty
  string, which a write to the key \<open>managed\<close> itself produces.
\<close>

definition managed_usable :: "SecretState \<Rightarrow> bool" where
  "managed_usable secrets =
     (case property secrets ''managed'' of
        Undefined \<Rightarrow> True
      | Str s \<Rightarrow> s = []
      | Obj m \<Rightarrow> True
      | _ \<Rightarrow> False)"

text \<open>The entry that a rotation without a usable search selects.\<close>

definition next_entry :: "jsval ManagedKey list \<Rightarrow> jsval \<Rightarrow> jsval ManagedKey" where
  "next_entry L A =
     (let j = findIndex (\<lambda>k. strict_eq (val k) A) L
      in if j + 1 < int (length L) then L ! nat (j + 1) else L ! 0)"

text \<open>Every value of the list is a string, as the typedef declares.\<close>

fun is_string :: "jsval \<Rightarrow> bool" where
  "is_string (Str s) = True"
| "is_string _ = False"

definition string_valued :: "jsval ManagedKey list \<Rightarrow> bool" where
  "string_valued L = list_all (\<lambda>e. is_string (val e)) L"

text \<open>\<open>n\<close> successive calls of \<open>rotateManagedSecret\<close> with the same arguments.\<close>

fun rotate_times :: "nat \<Rightarrow> disk \<Rightarrow> string \<Rightarrow> search \<Rightarrow> error + disk" where
  "rotate_times 0 d key searchValue = Inr d"
| "rotate_times (Suc n) d key searchValue =
     (case rotate_times n d key searchValue of
        Inl e \<Rightarrow> Inl e
      | Inr d' \<Rightarrow> rotateManagedSecret d' key searchValue)"

text \<open>The test of the comment search: equal after \<open>trim\<close> and \<open>toLowerCase\<close>.\<close>

definition comment_matches :: "string \<Rightarrow> jsval ManagedKey \<Rightarrow> bool" where
  "comment_matches s k = (toLowerCase (trim (comment k)) = toLowerCase (trim s))"

text \<open>
  The selection as claim C4 words it, to be compared with the code: the comment rule
  applies to every non-empty search string.
\<close>

definition claimed_selection ::
  "jsval ManagedKey list \<Rightarrow> search \<Rightarrow> jsval \<Rightarrow> jsval ManagedKey" where
  "claimed_selection L searchValue A =
     (case searchValue of
        SearchNumber n \<Rightarrow>
          (case element L n of Some e \<Rightarrow> e | None \<Rightarrow> next_entry L A)
      | SearchString s \<Rightarrow>
          if s \<noteq> []
          then (case find (comment_matches s) L of Some e \<Rightarrow> e | None \<Rightarrow> next_entry L A)
          else next_entry L A
      | NoSearch \<Rightarrow> next_entry L A)"

subsection \<open>Example documents\<close>

text \<open>Documents on which the properties below are instantiated.\<close>

definition abc_doc :: SecretState where
  "abc_doc = [''managed'' \<mapsto>
     Obj [''k'' \<mapsto> [ManagedKey ''first'' (Str ''a''), ManagedKey ''second'' (Str ''b''),
                   ManagedKey ''third'' (Str ''c'')]]]"

definition active_doc :: SecretState where
  "active_doc = [''managed'' \<mapsto>
     Obj [''k'' \<mapsto> [ManagedKey ''first'' (Str ''a''), ManagedKey ''second'' (Str ''b'')]],
     ''k'' \<mapsto> Str ''a'']"

definition blank_list :: "jsval ManagedKey list" where
  "blank_list = [ManagedKey ''x'' (Str ''1''), ManagedKey '' '' (Str ''2'')]"

definition blank_doc :: SecretState where
  "blank_doc = [''managed'' \<mapsto> Obj [''k'' \<mapsto> blank_list]]"

definition prod_list :: "jsval ManagedKey list" where
  "prod_list = [ManagedKey ''dev'' (Str ''1''), ManagedKey '' Prod '' (Str ''2''),
                ManagedKey ''PROD'' (Str ''3'')]"

definition prod_doc :: SecretState where
  "prod_doc = [''managed'' \<mapsto> Obj [''k'' \<mapsto> prod_list]]"

definition other_doc :: SecretState where
  "other_doc = [''managed'' \<mapsto>
     Obj [''k'' \<mapsto> [ManagedKey ''first'' (Str ''X''), ManagedKey ''second'' (Str ''Y'')]],
     ''k'' \<mapsto> Str ''X'']"

definition dup_doc :: SecretState where
  "dup_doc = [''managed'' \<mapsto> Obj [''k'' \<mapsto> [ManagedKey ''old'' (Str ''v'')]]]"

definition legacy_doc :: SecretState where
  "legacy_doc = [''managed'' \<mapsto> Obj Map.empty, ''k'' \<mapsto> Str ''v1'']"

text \<open>
  A list with an entry that has no value, as the migrate handler leaves one for a key
  that was never written.
\<close>

definition valueless_list :: "jsval ManagedKey list" where
  "valueless_list = [ManagedKey ''a'' (Str ''x''), ManagedKey ''m'' Undefined,
                     ManagedKey ''c'' (Str ''z'')]"

definition valueless_doc :: SecretState where
  "valueless_doc = [''managed'' \<mapsto> Obj [''k'' \<mapsto> valueless_list]]"

text \<open>A file written by hand, with a list under the key \<open>__proto__\<close>.\<close>

definition proto_doc :: SecretState where
  "proto_doc = [''managed'' \<mapsto> Obj [''__proto__'' \<mapsto> [ManagedKey ''c'' (Str ''v'')]]]"

section \<open>Properties\<close>

subsection \<open>Loading, saving and reading properties\<close>

lemma getSecretState_simps [simp]:
  "getSecretState None = Inr (JObject INITIAL_STATE)"
  "getSecretState (Some Unparseable) = Inl SyntaxError"
  "getSecretState (Some (Parses state)) = Inr (JSON_parse_stringify state)"
  by (simp_all add: getSecretState_def)

lemma getSecretState_update [simp]:
  "getSecretState (updateSecretState state) = Inr (JSON_parse_stringify state)"
  by (simp add: updateSecretState_def)

lemma JSON_value_idem [simp]: "JSON_value (JSON_value v) = JSON_value v"
proof (induction v)
  case (Obj m)
  have "map_option (map (map_ManagedKey JSON_value))
          (map_option (map (map_ManagedKey JSON_value)) (m k)) =
        map_option (map (map_ManagedKey JSON_value)) (m k)" for k
  proof (cases "m k")
    case None
    then show ?thesis by simp
  next
    case (Some xs)
    have "map_ManagedKey JSON_value (map_ManagedKey JSON_value e) =
          map_ManagedKey JSON_value e" if "e \<in> set xs" for e
    proof -
      have "JSON_value (JSON_value v) = JSON_value v" if "v \<in> set_ManagedKey e" for v
      proof (rule Obj.IH)
        show "m k \<in> range m" by simp
        show "xs \<in> set_option (m k)" using Some by simp
        show "e \<in> set xs" by fact
        show "v \<in> set_ManagedKey e" by fact
      qed
      then show ?thesis by (cases e) simp
    qed
    then show ?thesis using Some by simp
  qed
  then show ?case by (simp add: fun_eq_iff)
qed simp_all

lemma JSON_object_idem [simp]: "JSON_object (JSON_object state) = JSON_object state"
proof
  fix key
  show "JSON_object (JSON_object state) key = JSON_object state key"
  proof (cases "state key")
    case None
    then show ?thesis by (simp add: JSON_object_def)
  next
    case (Some v)
    define w where "w = JSON_value v"
    have iw: "JSON_value w = w" by (simp add: w_def)
    have a: "JSON_object state key = (case w of Undefined \<Rightarrow> None | u \<Rightarrow> Some u)"
      using Some by (simp add: JSON_object_def w_def)
    show ?thesis
    proof (cases "w = Undefined")
      case True
      then show ?thesis using a by (simp add: JSON_object_def)
    next
      case False
      then have b: "JSON_object state key = Some w" using a by (cases w) simp_all
      have "JSON_object (JSON_object state) key =
              (case JSON_value w of Undefined \<Rightarrow> None | u \<Rightarrow> Some u)"
        using b by (simp add: JSON_object_def [of "JSON_object state"])
      also have "\<dots> = Some w" unfolding iw using False by (cases w) simp_all
      finally show ?thesis using b by simp
    qed
  qed
qed

lemma INITIAL_STATE_clean [simp]: "JSON_object INITIAL_STATE = INITIAL_STATE"
  by (auto simp: JSON_object_def INITIAL_STATE_def fun_eq_iff)

lemma loaded_clean:
  assumes "getSecretState d = Inr (JObject secrets)"
  shows "JSON_object secrets = secrets"
proof (cases d)
  case None
  with assms show ?thesis by simp
next
  case (Some c)
  show ?thesis
  proof (cases c)
    case Unparseable
    with Some assms show ?thesis by simp
  next
    case (Parses state)
    with Some assms show ?thesis by (cases state) auto
  qed
qed

lemma clean_own:
  assumes "JSON_object secrets = secrets" and "secrets key = Some v"
  shows "JSON_value v = v" and "v \<noteq> Undefined"
proof -
  from assms have "JSON_object secrets key = Some v" by simp
  then have "(case JSON_value v of Undefined \<Rightarrow> None | w \<Rightarrow> Some w) = Some v"
    using assms(2) by (simp add: JSON_object_def)
  then show "JSON_value v = v" and "v \<noteq> Undefined"
    by (cases "JSON_value v"; auto)+
qed

lemma property_JSON_object:
  "property (JSON_object state) key =
     (case state key of
        None \<Rightarrow> inherited key
      | Some v \<Rightarrow> if JSON_value v = Undefined then inherited key else JSON_value v)"
  by (cases "state key"; cases "JSON_value (the (state key))")
     (auto simp: property_def JSON_object_def)

lemma property_JSON_object_cong:
  "t key = s key \<Longrightarrow> property (JSON_object t) key = property (JSON_object s) key"
  by (simp add: property_JSON_object)

lemma assign_other: "k \<noteq> key \<Longrightarrow> assign secrets key v k = secrets k"
  by (simp add: assign_def)

lemma property_after_assign_other:
  assumes "JSON_object secrets = secrets" and "k \<noteq> key"
  shows "property (JSON_object (assign secrets key v)) k = property secrets k"
proof -
  have "property (JSON_object (assign secrets key v)) k = property (JSON_object secrets) k"
    by (rule property_JSON_object_cong) (simp add: assign_other [OF assms(2)])
  with assms(1) show ?thesis by simp
qed

lemma inherited_ordinary:
  "key \<notin> set Object_prototype_names \<Longrightarrow> inherited key = Undefined"
  by (simp add: inherited_def Object_prototype_names_def)

lemma property_after_assign_same:
  assumes "key \<notin> set Object_prototype_names" and "JSON_value v = v"
    and "v \<noteq> Function" and "v \<noteq> Prototype"
  shows "property (JSON_object (assign secrets key v)) key = v"
proof -
  have k: "key \<noteq> ''__proto__''" using assms(1) by (auto simp: Object_prototype_names_def)
  show ?thesis
    using assms(2-) inherited_ordinary [OF assms(1)] k
    by (cases v) (simp_all add: property_JSON_object assign_def)
qed


lemma truthy_inherited: "truthy (inherited key) = (key \<in> set Object_prototype_names)"
  by (simp add: inherited_def Object_prototype_names_def)

lemma managed_array_Some_truthy:
  "managed_array v key = Some xs \<Longrightarrow> truthy v"
  by (cases v) simp_all

lemma managed_list_eq_map: "managed_list secrets key = managed_map secrets key"
  by (simp add: managed_list_def managed_map_def split: jsval.splits)

lemma managed_own:
  assumes "managed_list secrets key = Some L"
  obtains m where "secrets ''managed'' = Some (Obj m)" and "m key = Some L"
proof -
  from assms obtain m where p: "property secrets ''managed'' = Obj m" and k: "m key = Some L"
    by (cases "property secrets ''managed''") (simp_all add: managed_list_def)
  have "inherited ''managed'' = Undefined" by (simp add: inherited_def Object_prototype_functions_def)
  with p have "secrets ''managed'' = Some (Obj m)"
    by (cases "secrets ''managed''") (simp_all add: property_def)
  with k show ?thesis using that by blast
qed

lemma managed_list_clean:
  assumes "JSON_object secrets = secrets" and "managed_list secrets key = Some L"
  shows "map (map_ManagedKey JSON_value) L = L"
proof -
  from assms(2) obtain m where o: "secrets ''managed'' = Some (Obj m)" and k: "m key = Some L"
    by (rule managed_own)
  from clean_own(1) [OF assms(1) o] have "map_option (map (map_ManagedKey JSON_value)) \<circ> m = m"
    by simp
  then have "map_option (map (map_ManagedKey JSON_value)) (m key) = m key"
    by (metis comp_apply)
  with k show ?thesis by simp
qed

lemma managed_entry_clean:
  assumes "JSON_object secrets = secrets" and "managed_list secrets key = Some L"
    and "e \<in> set L"
  shows "JSON_value (val e) = val e"
proof -
  have "map (map_ManagedKey JSON_value) L = map id L"
    using managed_list_clean [OF assms(1,2)] by simp
  then have "map_ManagedKey JSON_value e = id e"
    using assms(3) by (meson map_eq_conv)
  then show ?thesis by (cases e) simp
qed

lemma managed_map_clean:
  assumes "JSON_object secrets = secrets"
  shows "map_option (map (map_ManagedKey JSON_value)) (managed_map secrets k) =
         managed_map secrets k"
proof (cases "managed_map secrets k")
  case None
  then show ?thesis by simp
next
  case (Some L)
  then have "managed_list secrets k = Some L" by (simp add: managed_list_eq_map)
  from managed_list_clean [OF assms this] Some show ?thesis by simp
qed

lemma managed_after_set:
  assumes "JSON_object secrets = secrets"
  shows "managed_list
           (JSON_object (assign secrets ''managed'' (Obj ((managed_map secrets)(key \<mapsto> xs))))) k =
         (if k = key then Some (map (map_ManagedKey JSON_value) xs) else managed_list secrets k)"
proof -
  let ?t = "assign secrets ''managed'' (Obj ((managed_map secrets)(key \<mapsto> xs)))"
  have "property (JSON_object ?t) ''managed'' =
          Obj (map_option (map (map_ManagedKey JSON_value)) \<circ> ((managed_map secrets)(key \<mapsto> xs)))"
    by (simp add: property_JSON_object assign_def)
  then have "managed_list (JSON_object ?t) k =
          map_option (map (map_ManagedKey JSON_value)) (((managed_map secrets)(key \<mapsto> xs)) k)"
    by (simp add: managed_list_def)
  then show ?thesis
    using managed_map_clean [OF assms, of k] by (simp add: managed_list_eq_map)
qed

lemma managed_after_assign_other:
  assumes "JSON_object secrets = secrets" and "key \<noteq> ''managed''"
  shows "managed_list (JSON_object (assign secrets key v)) k = managed_list secrets k"
  using property_after_assign_other [OF assms(1), of "''managed''" key v] assms(2)
  by (simp add: managed_list_def)

lemma writeSecret_loaded:
  "getSecretState d = Inr (JObject secrets) \<Longrightarrow>
     writeSecret d key v = Inr (updateSecretState (JObject (assign secrets key v)))"
  by (simp add: writeSecret_def)

lemma deleteSecret_loaded:
  "getSecretState d = Inr (JObject secrets) \<Longrightarrow>
     deleteSecret d key = Inr (updateSecretState (JObject (secrets(key := None))))"
  by (simp add: deleteSecret_def)

lemma readSecret_loaded:
  "getSecretState d = Inr (JObject secrets) \<Longrightarrow> readSecret d key = Inr (property secrets key)"
  by (simp add: readSecret_def)

lemma readSecret_update [simp]:
  "readSecret (updateSecretState (JObject state)) k = Inr (property (JSON_object state) k)"
  by (simp add: readSecret_def)

lemma findIndex_range: "-1 \<le> findIndex p xs \<and> findIndex p xs < int (length xs)"
  by (induction xs) (auto simp: Let_def)

lemma findIndex_none: "(findIndex p xs = -1) = (\<forall>x \<in> set xs. \<not> p x)"
proof (induction xs)
  case Nil
  show ?case by simp
next
  case (Cons x xs)
  have "-1 \<le> findIndex p xs" using findIndex_range [of p xs] by simp
  with Cons show ?case by (auto simp: Let_def)
qed

lemma findIndex_first:
  "j < length xs \<Longrightarrow> p (xs ! j) \<Longrightarrow> (\<forall>i<j. \<not> p (xs ! i)) \<Longrightarrow> findIndex p xs = int j"
proof (induction xs arbitrary: j)
  case Nil
  then show ?case by simp
next
  case (Cons x xs)
  show ?case
  proof (cases j)
    case 0
    with Cons.prems show ?thesis by simp
  next
    case (Suc j')
    from Cons.prems Suc have np: "\<not> p x" by auto
    have "findIndex p xs = int j'"
    proof (rule Cons.IH)
      show "j' < length xs" using Cons.prems Suc by simp
      show "p (xs ! j')" using Cons.prems Suc by simp
      show "\<forall>i<j'. \<not> p (xs ! i)"
      proof (intro allI impI)
        fix i assume "i < j'"
        then have "Suc i < j" using Suc by simp
        with Cons.prems have "\<not> p ((x # xs) ! Suc i)" by blast
        then show "\<not> p (xs ! i)" by simp
      qed
    qed
    with np Suc show ?thesis by (simp add: Let_def)
  qed
qed

lemma findIndex_found:
  "0 \<le> findIndex p xs \<Longrightarrow>
     p (xs ! nat (findIndex p xs)) \<and> (\<forall>i < nat (findIndex p xs). \<not> p (xs ! i))"
proof (induction xs)
  case Nil
  then show ?case by simp
next
  case (Cons x xs)
  show ?case
  proof (cases "p x")
    case True
    then show ?thesis by simp
  next
    case False
    with Cons.prems have nn: "0 \<le> findIndex p xs"
      by (simp add: Let_def split: if_splits)
    with False have eq: "findIndex p (x # xs) = findIndex p xs + 1"
      by (simp add: Let_def)
    from Cons.IH [OF nn] have ih: "p (xs ! nat (findIndex p xs))"
      and ih2: "\<forall>i < nat (findIndex p xs). \<not> p (xs ! i)" by simp_all
    have n: "nat (findIndex p xs + 1) = Suc (nat (findIndex p xs))" using nn by simp
    show ?thesis
      unfolding eq n
    proof (intro conjI allI impI)
      show "p ((x # xs) ! Suc (nat (findIndex p xs)))" using ih by simp
      fix i assume "i < Suc (nat (findIndex p xs))"
      then show "\<not> p ((x # xs) ! i)" using False ih2 by (cases i) simp_all
    qed
  qed
qed

lemma next_entry_unmatched:
  assumes "\<forall>e \<in> set L. \<not> strict_eq (val e) A"
  shows "next_entry L A = L ! 0"
  using assms findIndex_none [of "\<lambda>k. strict_eq (val k) A" L]
  by (simp add: next_entry_def)

lemma next_entry_matched:
  assumes "j < length L" and "strict_eq (val (L ! j)) A"
    and "\<forall>i<j. \<not> strict_eq (val (L ! i)) A"
  shows "next_entry L A = L ! (if Suc j < length L then Suc j else 0)"
  using findIndex_first [of j L "\<lambda>k. strict_eq (val k) A"] assms
  by (simp add: next_entry_def nat_add_distrib)

lemma strict_eq_Str_iff: "strict_eq (Str s) v = (v = Str s)"
  by (cases v) auto

lemma string_valued_nth:
  assumes "string_valued L" and "j < length L"
  obtains s where "val (L ! j) = Str s"
proof -
  have "is_string (val (L ! j))"
    using assms by (simp add: string_valued_def list_all_length)
  then show ?thesis using that by (cases "val (L ! j)") simp_all
qed

lemma next_entry_distinct:
  assumes "j < length L" and "distinct (map val L)" and "string_valued L"
  shows "next_entry L (val (L ! j)) = L ! (Suc j mod length L)"
proof -
  obtain s where s: "val (L ! j) = Str s"
    using string_valued_nth [OF assms(3,1)] .
  have m: "strict_eq (val (L ! j)) (val (L ! j))" by (simp add: s)
  have u: "\<forall>i<j. \<not> strict_eq (val (L ! i)) (val (L ! j))"
  proof (intro allI impI)
    fix i assume ij: "i < j"
    then have il: "i < length L" using assms(1) by simp
    obtain t where t: "val (L ! i) = Str t"
      using string_valued_nth [OF assms(3) il] .
    have "val (L ! i) \<noteq> val (L ! j)"
      using assms(1,2) ij il by (fastforce simp: distinct_conv_nth)
    then show "\<not> strict_eq (val (L ! i)) (val (L ! j))" by (simp add: s t)
  qed
  have "(if Suc j < length L then Suc j else 0) = Suc j mod length L"
    using assms(1) by (auto simp: mod_Suc)
  with next_entry_matched [OF assms(1) m u] show ?thesis by simp
qed

lemma next_entry_unset:
  assumes "string_valued L"
  shows "next_entry L Undefined = L ! 0"
proof (rule next_entry_unmatched)
  show "\<forall>e\<in>set L. \<not> strict_eq (val e) Undefined"
  proof
    fix e assume "e \<in> set L"
    then have "is_string (val e)"
      using assms by (simp add: string_valued_def list_all_iff)
    then show "\<not> strict_eq (val e) Undefined" by (cases "val e") simp_all
  qed
qed

subsection \<open>The operations on a loaded document\<close>

lemma unset_is_ordinary:
  assumes "JSON_object secrets = secrets" and "property secrets key = Undefined"
  shows "key \<notin> set Object_prototype_names"
proof (cases "secrets key")
  case None
  with assms(2) have "inherited key = Undefined" by (simp add: property_def)
  then have "\<not> truthy (inherited key)" by simp
  then show ?thesis by (simp add: truthy_inherited)
next
  case (Some v)
  with assms(2) have "v = Undefined" by (simp add: property_def)
  with clean_own(2) [OF assms(1) Some] show ?thesis by simp
qed

lemma rotate_selected:
  assumes "getSecretState d = Inr (JObject secrets)"
    and "managed_list secrets key = Some L" and "L \<noteq> []"
  shows "rotateManagedSecret d key search =
     writeSecret d key (val
       (case search of
          SearchNumber n \<Rightarrow>
            (case element L n of
               Some e \<Rightarrow> e
             | None \<Rightarrow> next_entry L (property secrets key))
        | SearchString s \<Rightarrow>
            if trim s \<noteq> []
            then (case find (comment_matches s) L of
                    Some e \<Rightarrow> e
                  | None \<Rightarrow> next_entry L (property secrets key))
            else next_entry L (property secrets key)
        | NoSearch \<Rightarrow> next_entry L (property secrets key)))"
proof -
  have t: "truthy (property secrets ''managed'')"
    using assms(2) managed_array_Some_truthy unfolding managed_list_def by blast
  have f: "(\<lambda>k. toLowerCase (trim (comment k)) = toLowerCase (trim s)) = comment_matches s"
    for s by (simp add: comment_matches_def fun_eq_iff)
  have e: "(if at_least_zero n \<and> less_than n (length L) then element L n else None) =
      element L n" for n
    by (cases n) simp_all
  show ?thesis
    using assms t unfolding managed_list_def
    by (cases search)
       (simp_all add: rotateManagedSecret_def next_entry_def readSecret_def
          Let_def f e split: option.splits)
qed

lemma rotate_no_search:
  assumes "getSecretState d = Inr (JObject secrets)"
    and "managed_list secrets key = Some L" and "L \<noteq> []"
    and "search = NoSearch \<or> search = SearchString []"
  shows "rotateManagedSecret d key search =
           writeSecret d key (val (next_entry L (property secrets key)))"
  using assms(4) unfolding rotate_selected [OF assms(1-3)]
  by (auto simp: trim_def)

lemma rotate_noop:
  assumes "getSecretState d = Inr (JObject secrets)"
    and "managed_list secrets key = None \<or> managed_list secrets key = Some []"
  shows "rotateManagedSecret d key search = Inr d"
  using assms
  by (auto simp: rotateManagedSecret_def managed_list_def)

lemma read_back:
  assumes load: "getSecretState d = Inr (JObject secrets)"
    and k: "key \<notin> set Object_prototype_names"
    and v: "JSON_value v = v" "v \<noteq> Function" "v \<noteq> Prototype"
  shows "\<exists>d'. writeSecret d key v = Inr d' \<and> readSecret d' key = Inr v"
  unfolding writeSecret_loaded [OF load]
  by (simp add: property_after_assign_same [OF k v])

lemma clean_not_native:
  assumes "JSON_value v = v"
  shows "v \<noteq> Function" and "v \<noteq> Prototype"
  using assms by (cases v; simp)+

lemma rotate_times_cycle:
  assumes load: "getSecretState d = Inr (JObject secrets)"
    and lst: "managed_list secrets key = Some L" and ne: "L \<noteq> []"
    and unset: "property secrets key = Undefined"
    and dist: "distinct (map val L)" and strs: "string_valued L"
    and void: "search = NoSearch \<or> search = SearchString []"
  shows "\<exists>d' secrets'. rotate_times (Suc n) d key search = Inr d' \<and>
           getSecretState d' = Inr (JObject secrets') \<and> managed_list secrets' key = Some L \<and>
           property secrets' key = val (L ! (n mod length L))"
proof -
  have cl: "JSON_object secrets = secrets" by (rule loaded_clean [OF load])
  have ord: "key \<notin> set Object_prototype_names" by (rule unset_is_ordinary [OF cl unset])
  have km: "key \<noteq> ''managed''"
  proof
    assume "key = ''managed''"
    with unset lst show False by (simp add: managed_list_def)
  qed
  have step: "\<exists>d' s'. rotateManagedSecret d0 key search = Inr d' \<and>
           getSecretState d' = Inr (JObject s') \<and> managed_list s' key = Some L \<and>
           property s' key = val (L ! j)"
    if l0: "getSecretState d0 = Inr (JObject s0)" and m0: "managed_list s0 key = Some L"
      and nx: "next_entry L (property s0 key) = L ! j" and j: "j < length L"
    for d0 s0 j
  proof -
    have c0: "JSON_object s0 = s0" by (rule loaded_clean [OF l0])
    obtain s where s: "val (L ! j) = Str s" by (rule string_valued_nth [OF strs j])
    have r: "rotateManagedSecret d0 key search =
        Inr (updateSecretState (JObject (assign s0 key (Str s))))"
      unfolding rotate_no_search [OF l0 m0 ne void] nx s writeSecret_loaded [OF l0] ..
    have p: "property (JSON_object (assign s0 key (Str s))) key = Str s"
      by (rule property_after_assign_same [OF ord]) simp_all
    have m: "managed_list (JSON_object (assign s0 key (Str s))) key = Some L"
      using managed_after_assign_other [OF c0 km] m0 by simp
    show ?thesis using r p m s by simp
  qed
  show ?thesis
  proof (induction n)
    case 0
    have "0 < length L" using ne by simp
    from step [OF load lst _ this] next_entry_unset [OF strs] unset
    show ?case by simp
  next
    case (Suc n)
    then obtain d' secrets' where r: "rotate_times (Suc n) d key search = Inr d'"
      and l': "getSecretState d' = Inr (JObject secrets')"
      and m': "managed_list secrets' key = Some L"
      and p': "property secrets' key = val (L ! (n mod length L))" by blast
    have lt: "n mod length L < length L" using ne by simp
    have lt2: "Suc n mod length L < length L" using ne by simp
    have nx: "next_entry L (property secrets' key) = L ! (Suc n mod length L)"
      unfolding p' using next_entry_distinct [OF lt dist strs] by (simp add: mod_Suc_eq)
    from step [OF l' m' nx lt2] r show ?case by simp
  qed
qed

lemma appendManagedKey_cases:
  assumes "getSecretState d = Inr (JObject secrets)"
  shows "appendManagedKey d key cmt v =
     (if managed_usable secrets \<and>
         (managed_map secrets key \<noteq> None \<or> key \<notin> set Object_prototype_names)
      then Inr (updateSecretState (JObject (assign secrets ''managed''
             (Obj ((managed_map secrets)(key \<mapsto>
               (case managed_map secrets key of None \<Rightarrow> [] | Some xs \<Rightarrow> xs) @
               [ManagedKey cmt v]))))))
      else Inl TypeError)"
  using assms
  by (cases "property secrets ''managed''")
     (auto simp: appendManagedKey_def managed_usable_def managed_map_def Let_def
           truthy_inherited assign_def property_def split: option.splits)

lemma spliceManagedKey_noop:
  assumes "getSecretState d = Inr (JObject secrets)"
    and "managed_list secrets key = None \<or>
         (\<exists>L. managed_list secrets key = Some L \<and>
            (less_than_zero i \<or> at_least i (length L)))"
  shows "spliceManagedKey d key i = Inr d"
  using assms
  by (cases "property secrets ''managed''")
     (auto simp: spliceManagedKey_def managed_list_def split: option.splits)

lemma spliceManagedKey_loaded:
  assumes "getSecretState d = Inr (JObject secrets)" and "managed_list secrets key = Some L"
    and "\<not> less_than_zero i" and "\<not> at_least i (length L)"
  shows "spliceManagedKey d key i =
           Inr (updateSecretState (JObject (assign secrets ''managed''
             (Obj ((managed_map secrets)(key \<mapsto>
               take (splice_start i) L @ drop (Suc (splice_start i)) L))))))"
  using assms
  by (cases "property secrets ''managed''")
     (auto simp: spliceManagedKey_def managed_list_def managed_map_def Let_def)

lemma probeManagedKey_loaded:
  assumes "getSecretState d = Inr (JObject secrets)"
  shows "probeManagedKey d key =
     (case managed_list secrets key of
        None \<Rightarrow> Inr \<lparr>result = False, index = -1\<rparr>
      | Some L \<Rightarrow>
          Inr \<lparr>result = (findIndex (\<lambda>k. strict_eq (val k) (property secrets key)) L \<noteq> -1),
               index = findIndex (\<lambda>k. strict_eq (val k) (property secrets key)) L\<rparr>)"
  using assms managed_array_Some_truthy [of "property secrets ''managed''" key]
  by (cases "property secrets ''managed''")
     (auto simp: probeManagedKey_def managed_list_def readSecret_def Let_def
           split: option.splits)

lemma strict_eq_commute: "strict_eq a b = strict_eq b a"
  by (cases a; cases b) auto

lemma readManagedSecretsState_loaded:
  assumes "getSecretState d = Inr (JObject secrets)" and "managed_usable secrets"
  shows "readManagedSecretsState d =
     Inr (\<lambda>key. if key = ''__proto__'' then None
            else map_option
              (map (\<lambda>secret. ManagedKeyState (Some (comment secret))
                      (strict_eq (val secret) (property secrets key))))
              (managed_list secrets key))"
  using assms
  by (cases "property secrets ''managed''")
     (auto simp: readManagedSecretsState_def managed_usable_def managed_list_def fun_eq_iff
        strict_eq_commute [of "property secrets _"] split: option.splits)

lemma strict_eq_to_Str: "strict_eq a (Str s) = (a = Str s)"
  by (cases a) auto

lemma strict_eq_same: "a = Undefined \<or> (\<exists>s. a = Str s) \<Longrightarrow> strict_eq a a"
  by auto

subsection \<open>The example documents are what their files parse to\<close>

lemma example_docs_clean [simp]:
  "JSON_object abc_doc = abc_doc"
  "JSON_object active_doc = active_doc"
  "JSON_object blank_doc = blank_doc"
  "JSON_object prod_doc = prod_doc"
  "JSON_object other_doc = other_doc"
  "JSON_object dup_doc = dup_doc"
  "JSON_object legacy_doc = legacy_doc"
  "JSON_object valueless_doc = valueless_doc"
  "JSON_object proto_doc = proto_doc"
  by (auto simp: JSON_object_def fun_eq_iff abc_doc_def active_doc_def blank_doc_def
      blank_list_def prod_doc_def prod_list_def other_doc_def dup_doc_def legacy_doc_def
      valueless_doc_def valueless_list_def proto_doc_def)

subsection \<open>The flags of a file that holds no object\<close>

lemma SECRET_KEYS_plain:
  "\<forall>key \<in> set SECRET_KEYS.
     key \<notin> set Object_prototype_names \<and> key \<notin> set Number_prototype_functions"
  by code_simp

lemma SECRET_KEYS_ordinary:
  "\<forall>key \<in> set SECRET_KEYS. inherited key = Undefined \<and> key \<notin> set Number_prototype_functions"
  using SECRET_KEYS_plain inherited_ordinary by blast

lemma flags_of_primitive:
  "map (\<lambda>key. (key, truthy (inherited_primitive p key)))
       (filter (\<lambda>key. key \<noteq> ''managed'') SECRET_KEYS) =
   map (\<lambda>key. (key, False)) (filter (\<lambda>key. key \<noteq> ''managed'') SECRET_KEYS)"
proof (rule map_cong [OF refl])
  fix key
  assume "key \<in> set (filter (\<lambda>key. key \<noteq> ''managed'') SECRET_KEYS)"
  then have "key \<in> set SECRET_KEYS" by simp
  with SECRET_KEYS_ordinary
  have "inherited key = Undefined" "key \<notin> set Number_prototype_functions" by blast+
  then show "(key, truthy (inherited_primitive p key)) = (key, False)"
    by (cases p) simp_all
qed

subsection \<open>Append, then write or migrate\<close>

lemma clean_property:
  assumes "JSON_object secrets = secrets" and "key \<notin> set Object_prototype_names"
  shows "JSON_value (property secrets key) = property secrets key"
proof (cases "secrets key")
  case None
  with inherited_ordinary [OF assms(2)] show ?thesis by (simp add: property_def)
next
  case (Some v)
  with clean_own(1) [OF assms(1) Some] show ?thesis by (simp add: property_def)
qed

lemma appended:
  assumes load: "getSecretState d = Inr (JObject secrets)" and shape: "managed_usable secrets"
    and ord: "key \<notin> set Object_prototype_names"
  shows "\<exists>d' secrets'. appendManagedKey d key cmt v = Inr d' \<and>
      getSecretState d' = Inr (JObject secrets') \<and>
      managed_list secrets' key =
        Some ((case managed_list secrets key of None \<Rightarrow> [] | Some xs \<Rightarrow> xs) @
              [ManagedKey cmt (JSON_value v)]) \<and>
      (\<forall>k. k \<noteq> key \<longrightarrow> managed_list secrets' k = managed_list secrets k) \<and>
      (\<forall>k. k \<noteq> ''managed'' \<longrightarrow> property secrets' k = property secrets k)"
proof -
  define L where "L = (case managed_list secrets key of None \<Rightarrow> [] | Some xs \<Rightarrow> xs)"
  have cl: "JSON_object secrets = secrets" by (rule loaded_clean [OF load])
  let ?t = "assign secrets ''managed''
              (Obj ((managed_map secrets)(key \<mapsto> L @ [ManagedKey cmt v])))"
  have ap: "appendManagedKey d key cmt v = Inr (updateSecretState (JObject ?t))"
    unfolding appendManagedKey_cases [OF load] using shape ord
    by (simp add: L_def managed_list_eq_map)
  have cL: "map (map_ManagedKey JSON_value) L = L"
  proof (cases "managed_list secrets key")
    case None
    then show ?thesis by (simp add: L_def)
  next
    case (Some xs)
    with managed_list_clean [OF cl Some] show ?thesis by (simp add: L_def)
  qed
  have m: "managed_list (JSON_object ?t) k =
      (if k = key then Some (L @ [ManagedKey cmt (JSON_value v)]) else managed_list secrets k)"
    for k
    unfolding managed_after_set [OF cl] by (simp add: cL)
  have p: "property (JSON_object ?t) k = property secrets k" if "k \<noteq> ''managed''" for k
    by (rule property_after_assign_other [OF cl that])
  have "appendManagedKey d key cmt v = Inr (updateSecretState (JObject ?t)) \<and>
      getSecretState (updateSecretState (JObject ?t)) = Inr (JObject (JSON_object ?t)) \<and>
      managed_list (JSON_object ?t) key = Some (L @ [ManagedKey cmt (JSON_value v)]) \<and>
      (\<forall>k. k \<noteq> key \<longrightarrow> managed_list (JSON_object ?t) k = managed_list secrets k) \<and>
      (\<forall>k. k \<noteq> ''managed'' \<longrightarrow> property (JSON_object ?t) k = property secrets k)"
    using ap m p by simp
  then show ?thesis unfolding L_def by blast
qed

lemma append_then_write:
  assumes load: "getSecretState d = Inr (JObject secrets)" and shape: "managed_usable secrets"
    and k: "key \<noteq> ''managed''" and ord: "key \<notin> set Object_prototype_names"
  shows "\<exists>d1 d2 secrets2.
      appendManagedKey d key cmt (Str v) = Inr d1 \<and> writeSecret d1 key (Str w) = Inr d2 \<and>
      getSecretState d2 = Inr (JObject secrets2) \<and>
      managed_list secrets2 key =
        Some ((case managed_list secrets key of None \<Rightarrow> [] | Some xs \<Rightarrow> xs) @
              [ManagedKey cmt (Str v)]) \<and>
      property secrets2 key = Str w"
proof -
  from appended [OF load shape ord, of cmt "Str v"]
  obtain d1 s1 where a: "appendManagedKey d key cmt (Str v) = Inr d1"
    and l1: "getSecretState d1 = Inr (JObject s1)"
    and m1: "managed_list s1 key =
        Some ((case managed_list secrets key of None \<Rightarrow> [] | Some xs \<Rightarrow> xs) @
              [ManagedKey cmt (Str v)])"
    by (elim exE conjE) simp
  have c1: "JSON_object s1 = s1" by (rule loaded_clean [OF l1])
  have w: "writeSecret d1 key (Str w) = Inr (updateSecretState (JObject (assign s1 key (Str w))))"
    by (rule writeSecret_loaded [OF l1])
  have m2: "managed_list (JSON_object (assign s1 key (Str w))) key = managed_list s1 key"
    by (rule managed_after_assign_other [OF c1 k])
  have p2: "property (JSON_object (assign s1 key (Str w))) key = Str w"
    by (rule property_after_assign_same [OF ord]) simp_all
  have "appendManagedKey d key cmt (Str v) = Inr d1 \<and>
      writeSecret d1 key (Str w) = Inr (updateSecretState (JObject (assign s1 key (Str w)))) \<and>
      getSecretState (updateSecretState (JObject (assign s1 key (Str w)))) =
        Inr (JObject (JSON_object (assign s1 key (Str w)))) \<and>
      managed_list (JSON_object (assign s1 key (Str w))) key =
        Some ((case managed_list secrets key of None \<Rightarrow> [] | Some xs \<Rightarrow> xs) @
              [ManagedKey cmt (Str v)]) \<and>
      property (JSON_object (assign s1 key (Str w))) key = Str w"
    using a w m1 m2 p2 by simp
  then show ?thesis by blast
qed

lemma route_migrate_conflict_iff:
  "(\<exists>d'. route_migrate d key cmt = Inr (SendStatus 409, d')) =
   (\<exists>i. probeManagedKey d key = Inr \<lparr>result = True, index = i\<rparr>)"
proof (cases "probeManagedKey d key")
  case (Inl e)
  then show ?thesis by (simp add: route_migrate_def)
next
  case (Inr pr)
  show ?thesis
  proof (cases "result pr")
    case True
    then have e: "pr = \<lparr>result = True, index = index pr\<rparr>" by simp
    have a: "\<exists>d'. route_migrate d key cmt = Inr (SendStatus 409, d')"
      using Inr True by (simp add: route_migrate_def)
    have b: "\<exists>i. probeManagedKey d key = Inr \<lparr>result = True, index = i\<rparr>"
      using Inr e by (intro exI [of _ "index pr"]) simp
    from a b show ?thesis by simp
  next
    case False
    with Inr show ?thesis
      by (auto simp: route_migrate_def split: sum.splits)
  qed
qed

lemma route_migrate_conflict_same:
  "route_migrate d key cmt = Inr (SendStatus 409, d') \<Longrightarrow> d' = d"
  by (auto simp: route_migrate_def split: sum.splits if_splits)

lemma route_migrate_appends:
  assumes load: "getSecretState d = Inr (JObject secrets)" and shape: "managed_usable secrets"
    and k: "key \<noteq> ''managed''" and ord: "key \<notin> set Object_prototype_names"
    and np: "probeManagedKey d key = Inr \<lparr>result = False, index = i\<rparr>"
  shows "\<exists>d' secrets'. route_migrate d key cmt = Inr (SendStatus 204, d') \<and>
      getSecretState d' = Inr (JObject secrets') \<and>
      managed_list secrets' key =
        Some ((case managed_list secrets key of None \<Rightarrow> [] | Some xs \<Rightarrow> xs) @
              [ManagedKey cmt (property secrets key)]) \<and>
      (\<forall>k. k \<noteq> key \<longrightarrow> managed_list secrets' k = managed_list secrets k) \<and>
      (\<forall>k. k \<noteq> ''managed'' \<longrightarrow> property secrets' k = property secrets k) \<and>
      ((\<forall>m. property secrets key \<noteq> Obj m) \<longrightarrow>
         route_migrate d' key cmt = Inr (SendStatus 409, d'))"
proof -
  define L where "L = (case managed_list secrets key of None \<Rightarrow> [] | Some xs \<Rightarrow> xs)"
  define A where "A = property secrets key"
  define L' where "L' = L @ [ManagedKey cmt A]"
  have cl: "JSON_object secrets = secrets" by (rule loaded_clean [OF load])
  have cA: "JSON_value A = A" unfolding A_def by (rule clean_property [OF cl ord])
  from appended [OF load shape ord, of cmt A]
  obtain d' secrets' where ap: "appendManagedKey d key cmt A = Inr d'"
    and l': "getSecretState d' = Inr (JObject secrets')"
    and m': "managed_list secrets' key = Some L'"
    and mo: "\<forall>k. k \<noteq> key \<longrightarrow> managed_list secrets' k = managed_list secrets k"
    and po: "\<forall>k. k \<noteq> ''managed'' \<longrightarrow> property secrets' k = property secrets k"
    unfolding L'_def L_def cA by (elim exE conjE)
  have r1: "route_migrate d key cmt = Inr (SendStatus 204, d')"
    using np ap by (simp add: route_migrate_def readSecret_loaded [OF load] A_def)
  have A': "property secrets' key = A" using po k by (simp add: A_def)
  have r2: "route_migrate d' key cmt = Inr (SendStatus 409, d')" if h: "\<forall>m. A \<noteq> Obj m"
  proof -
    let ?p = "\<lambda>k. strict_eq (val k) A"
    have "A = Undefined \<or> (\<exists>s. A = Str s)"
      using h clean_not_native [OF cA] by (cases A) auto
    then have "strict_eq A A" by (rule strict_eq_same)
    then have "\<not> (\<forall>x \<in> set L'. \<not> ?p x)" by (simp add: L'_def)
    then have "findIndex ?p L' \<noteq> -1" using findIndex_none [of ?p L'] by blast
    then have "probeManagedKey d' key = Inr \<lparr>result = True, index = findIndex ?p L'\<rparr>"
      by (simp add: probeManagedKey_loaded [OF l'] m' A')
    then show ?thesis by (simp add: route_migrate_def)
  qed
  have "route_migrate d key cmt = Inr (SendStatus 204, d') \<and>
      getSecretState d' = Inr (JObject secrets') \<and>
      managed_list secrets' key = Some (L @ [ManagedKey cmt A]) \<and>
      (\<forall>k. k \<noteq> key \<longrightarrow> managed_list secrets' k = managed_list secrets k) \<and>
      (\<forall>k. k \<noteq> ''managed'' \<longrightarrow> property secrets' k = property secrets k) \<and>
      ((\<forall>m. A \<noteq> Obj m) \<longrightarrow> route_migrate d' key cmt = Inr (SendStatus 409, d'))"
    using r1 l' m' mo po r2 unfolding L'_def by (intro conjI impI)
  then show ?thesis unfolding L_def A_def by blast
qed

subsection \<open>C1: rotation without a search\<close>

text \<open>
  Claim C1, as amended. Let the file load as the object \<open>secrets\<close>, let \<open>L\<close> be the
  managed list of \<open>key\<close> and \<open>A = secrets[key]\<close> the active value, and let the search be
  absent or the empty string.
  \<^item> When \<open>L\<close> is absent or empty, \<open>rotateManagedSecret\<close> returns with the file untouched.
  \<^item> When \<open>L\<close> is not empty, the call is \<open>writeSecret\<close> of the value of the selected
    entry: \<open>L[0]\<close> when no entry's value is \<open>===\<close> to \<open>A\<close>, and otherwise the entry after
    the first one whose value is, wrapping to \<open>L[0]\<close> after the last. An absent \<open>A\<close> is
    \<open>===\<close> to the value of an entry that has none. For a key that is not a name of
    \<open>Object.prototype\<close> the write succeeds and the active value read afterwards is the
    selected value.
  \<^item> Over a list of three distinct strings \<open>a, b, c\<close> and an unset active value, the
    \<open>n+1\<close>-th successive rotation leaves the active value \<open>[a, b, c][n mod 3]\<close>, that is
    \<open>a, b, c, a, ...\<close>.
\<close>

theorem rotate_without_search:
  assumes load: "getSecretState d = Inr (JObject secrets)"
    and void: "search = NoSearch \<or> search = SearchString ''''"
  shows
    "(managed_list secrets key = None \<or> managed_list secrets key = Some [] \<longrightarrow>
        rotateManagedSecret d key search = Inr d) \<and>
     (\<forall>L. managed_list secrets key = Some L \<and> L \<noteq> [] \<longrightarrow>
        (\<exists>sel. rotateManagedSecret d key search = writeSecret d key (val sel) \<and>
           ((\<forall>e \<in> set L. \<not> strict_eq (val e) (property secrets key)) \<longrightarrow> sel = L ! 0) \<and>
           (\<forall>j < length L.
              strict_eq (val (L ! j)) (property secrets key) \<and>
              (\<forall>i < j. \<not> strict_eq (val (L ! i)) (property secrets key)) \<longrightarrow>
              sel = L ! (if Suc j < length L then Suc j else 0)) \<and>
           (key \<notin> set Object_prototype_names \<longrightarrow>
              (\<exists>d'. rotateManagedSecret d key search = Inr d' \<and>
                 readSecret d' key = Inr (val sel))))) \<and>
     (\<forall>ca cb cc a b c.
        managed_list secrets key =
          Some [ManagedKey ca (Str a), ManagedKey cb (Str b), ManagedKey cc (Str c)] \<and>
        distinct [a, b, c] \<and> property secrets key = Undefined \<longrightarrow>
        (\<forall>n. \<exists>d'. rotate_times (Suc n) d key search = Inr d' \<and>
           readSecret d' key = Inr (Str ([a, b, c] ! (n mod 3)))))"
proof (intro conjI allI impI)
  assume "managed_list secrets key = None \<or> managed_list secrets key = Some []"
  then show "rotateManagedSecret d key search = Inr d"
    by (rule rotate_noop [OF load])
next
  fix L
  assume "managed_list secrets key = Some L \<and> L \<noteq> []"
  then have lst: "managed_list secrets key = Some L" and ne: "L \<noteq> []" by simp_all
  let ?A = "property secrets key"
  let ?sel = "next_entry L ?A"
  have cl: "JSON_object secrets = secrets" by (rule loaded_clean [OF load])
  have r: "rotateManagedSecret d key search = writeSecret d key (val ?sel)"
    by (rule rotate_no_search [OF load lst ne void])
  have a: "(\<forall>e \<in> set L. \<not> strict_eq (val e) ?A) \<longrightarrow> ?sel = L ! 0"
    using next_entry_unmatched by blast
  have b: "\<forall>j < length L.
      strict_eq (val (L ! j)) ?A \<and> (\<forall>i < j. \<not> strict_eq (val (L ! i)) ?A) \<longrightarrow>
      ?sel = L ! (if Suc j < length L then Suc j else 0)"
    using next_entry_matched by blast
  have "?sel \<in> set L"
    using ne findIndex_range [of "\<lambda>k. strict_eq (val k) ?A" L]
    by (auto simp: next_entry_def Let_def)
  then have cv: "JSON_value (val ?sel) = val ?sel"
    by (rule managed_entry_clean [OF cl lst])
  have c: "key \<notin> set Object_prototype_names \<longrightarrow>
      (\<exists>d'. rotateManagedSecret d key search = Inr d' \<and> readSecret d' key = Inr (val ?sel))"
    unfolding r using read_back [OF load _ cv clean_not_native [OF cv]] by blast
  from r a b c
  show "\<exists>sel. rotateManagedSecret d key search = writeSecret d key (val sel) \<and>
           ((\<forall>e \<in> set L. \<not> strict_eq (val e) ?A) \<longrightarrow> sel = L ! 0) \<and>
           (\<forall>j < length L.
              strict_eq (val (L ! j)) ?A \<and> (\<forall>i < j. \<not> strict_eq (val (L ! i)) ?A) \<longrightarrow>
              sel = L ! (if Suc j < length L then Suc j else 0)) \<and>
           (key \<notin> set Object_prototype_names \<longrightarrow>
              (\<exists>d'. rotateManagedSecret d key search = Inr d' \<and>
                 readSecret d' key = Inr (val sel)))"
    by (intro exI [of _ ?sel] conjI)
next
  fix ca cb cc a b c n
  let ?L = "[ManagedKey ca (Str a), ManagedKey cb (Str b), ManagedKey cc (Str c)]"
  assume h: "managed_list secrets key = Some ?L \<and> distinct [a, b, c] \<and>
    property secrets key = Undefined"
  then have lst: "managed_list secrets key = Some ?L"
    and unset: "property secrets key = Undefined" by simp_all
  have dist: "distinct (map val ?L)" using h by simp
  have strs: "string_valued ?L" by (simp add: string_valued_def)
  have ne: "?L \<noteq> []" by simp
  from rotate_times_cycle [OF load lst ne unset dist strs void, of n]
  obtain d' secrets' where r: "rotate_times (Suc n) d key search = Inr d'"
    and l: "getSecretState d' = Inr (JObject secrets')"
    and p: "property secrets' key = val (?L ! (n mod length ?L))" by blast
  have lt: "n mod 3 < 3" by simp
  have "val (?L ! (n mod 3)) = Str ([a, b, c] ! (n mod 3))"
    using lt by (cases "n mod 3" rule: nat.exhaust) (auto simp: nth_Cons split: nat.splits)
  with p have "property secrets' key = Str ([a, b, c] ! (n mod 3))" by simp
  then have "readSecret d' key = Inr (Str ([a, b, c] ! (n mod 3)))"
    using l by (simp add: readSecret_def)
  with r show "\<exists>d'. rotate_times (Suc n) d key search = Inr d' \<and>
           readSecret d' key = Inr (Str ([a, b, c] ! (n mod 3)))" by blast
qed

theorem rotate_without_search_witness:
  "rotateManagedSecret None ''k'' NoSearch = Inr None \<and>
   (\<exists>d1. rotate_times (Suc 0) (Some (Parses (JObject abc_doc))) ''k'' NoSearch = Inr d1 \<and>
      readSecret d1 ''k'' = Inr (Str ''a'')) \<and>
   (\<exists>d2. rotate_times (Suc 1) (Some (Parses (JObject abc_doc))) ''k'' NoSearch = Inr d2 \<and>
      readSecret d2 ''k'' = Inr (Str ''b'')) \<and>
   (\<exists>d3. rotate_times (Suc 2) (Some (Parses (JObject abc_doc))) ''k'' NoSearch = Inr d3 \<and>
      readSecret d3 ''k'' = Inr (Str ''c'')) \<and>
   (\<exists>d4. rotate_times (Suc 3) (Some (Parses (JObject abc_doc))) ''k'' NoSearch = Inr d4 \<and>
      readSecret d4 ''k'' = Inr (Str ''a''))"
proof -
  have l0: "getSecretState None = Inr (JObject INITIAL_STATE)" by simp
  have v: "NoSearch = NoSearch \<or> NoSearch = SearchString ''''" by simp
  have m0: "managed_list INITIAL_STATE ''k'' = None"
    by (simp add: managed_list_def INITIAL_STATE_def property_def)
  have a: "rotateManagedSecret None ''k'' NoSearch = Inr None"
    using rotate_without_search [OF l0 v, of "''k''"] m0 by simp
  have l1: "getSecretState (Some (Parses (JObject abc_doc))) = Inr (JObject abc_doc)" by simp
  have m1: "managed_list abc_doc ''k'' =
      Some [ManagedKey ''first'' (Str ''a''), ManagedKey ''second'' (Str ''b''),
            ManagedKey ''third'' (Str ''c'')]"
    by (simp add: managed_list_def abc_doc_def property_def)
  have u1: "property abc_doc ''k'' = Undefined"
    by (simp add: abc_doc_def property_def inherited_def Object_prototype_functions_def)
  have d1: "distinct [''a'', ''b'', ''c'']" by simp
  have c: "\<exists>d'. rotate_times (Suc n) (Some (Parses (JObject abc_doc))) ''k'' NoSearch = Inr d' \<and>
           readSecret d' ''k'' = Inr (Str ([''a'', ''b'', ''c''] ! (n mod 3)))" for n
    using rotate_without_search [OF l1 v, of "''k''"] m1 u1 d1 by blast
  have n0: "[''a'', ''b'', ''c''] ! (0 mod 3) = ''a''" by simp
  have n1: "[''a'', ''b'', ''c''] ! (1 mod 3) = ''b''" by simp
  have n2: "[''a'', ''b'', ''c''] ! (2 mod 3) = ''c''" by simp
  have n3: "[''a'', ''b'', ''c''] ! (3 mod 3) = ''a''" by simp
  show ?thesis
    using a c [of 0] c [of 1] c [of 2] c [of 3]
    unfolding n0 n1 n2 n3 by (intro conjI)
qed

text \<open>
  The claim as it was stated selects \<open>L[0]\<close> whenever \<open>A\<close> is absent, and sets the active
  value for every key. Over the list \<open>[{a, x}, {m}, {c, z}]\<close>, whose second entry is one
  that the migrate handler leaves for an unset key, an absent \<open>A\<close> matches the second
  entry and the active value becomes \<open>z\<close>, not \<open>x\<close>. And for the key \<open>__proto__\<close> the
  write is the setter of the accessor, which stores no string: the active value stays the
  prototype.
\<close>

theorem rotate_without_search_counterexample:
  "property valueless_doc ''k'' = Undefined \<and>
   val (valueless_list ! 0) = Str ''x'' \<and>
   (\<exists>d'. rotateManagedSecret (Some (Parses (JObject valueless_doc))) ''k'' NoSearch = Inr d' \<and>
      readSecret d' ''k'' = Inr (Str ''z'')) \<and>
   (\<exists>d'. rotateManagedSecret (Some (Parses (JObject proto_doc))) ''__proto__'' NoSearch = Inr d' \<and>
      readSecret d' ''__proto__'' = Inr Prototype)"
proof -
  have l: "getSecretState (Some (Parses (JObject valueless_doc))) = Inr (JObject valueless_doc)"
    by simp
  have m: "managed_list valueless_doc ''k'' = Some valueless_list"
    by (simp add: managed_list_def valueless_doc_def property_def)
  have ne: "valueless_list \<noteq> []" by (simp add: valueless_list_def)
  have u: "property valueless_doc ''k'' = Undefined"
    by (simp add: valueless_doc_def property_def inherited_def Object_prototype_functions_def)
  have v0: "val (valueless_list ! 0) = Str ''x''" by (simp add: valueless_list_def)
  have nx: "next_entry valueless_list Undefined = ManagedKey ''c'' (Str ''z'')"
    by (simp add: next_entry_def valueless_list_def)
  have r: "rotateManagedSecret (Some (Parses (JObject valueless_doc))) ''k'' NoSearch =
      Inr (updateSecretState (JObject (assign valueless_doc ''k'' (Str ''z''))))"
    unfolding rotate_selected [OF l m ne] writeSecret_loaded [OF l] by (simp add: u nx)
  have a: "\<exists>d'. rotateManagedSecret (Some (Parses (JObject valueless_doc))) ''k'' NoSearch = Inr d' \<and>
      readSecret d' ''k'' = Inr (Str ''z'')"
    unfolding r by (simp add: property_JSON_object assign_def)
  have lp: "getSecretState (Some (Parses (JObject proto_doc))) = Inr (JObject proto_doc)"
    by simp
  have mp: "managed_list proto_doc ''__proto__'' = Some [ManagedKey ''c'' (Str ''v'')]"
    by (simp add: managed_list_def proto_doc_def property_def)
  have nep: "[ManagedKey ''c'' (Str ''v'')] \<noteq> []" by simp
  have ap: "assign proto_doc ''__proto__'' v = proto_doc" for v
    by (simp add: assign_def proto_doc_def)
  have rp: "rotateManagedSecret (Some (Parses (JObject proto_doc))) ''__proto__'' NoSearch =
      Inr (updateSecretState (JObject proto_doc))"
    using rotate_selected [OF lp mp nep, of NoSearch]
    by (simp add: writeSecret_loaded [OF lp] ap)
  have b: "\<exists>d'. rotateManagedSecret (Some (Parses (JObject proto_doc))) ''__proto__'' NoSearch = Inr d' \<and>
      readSecret d' ''__proto__'' = Inr Prototype"
    unfolding rp by (simp add: property_def [of proto_doc] proto_doc_def [THEN fun_cong] inherited_def)
  from u v0 a b show ?thesis by (intro conjI)
qed

subsection \<open>C2: migrate\<close>

text \<open>
  Claim C2, as amended. The handler of \<open>/manager/migrate\<close> answers 409 (Conflict) if and
  only if \<open>probeManagedKey\<close> reports the active value as managed, and then the file is the
  one it found. When the probe reports it as not managed, for a key that is neither
  \<open>managed\<close> nor a name of \<open>Object.prototype\<close>, in a document whose field \<open>managed\<close> is
  absent, the empty string or an object, the handler answers 204 and the document written
  has the entry \<open>{comment, A}\<close> at the end of the key's list, the other lists and every
  field other than \<open>managed\<close>, so the active value \<open>A\<close>, as before. If moreover \<open>A\<close> is a
  string or absent, a second call on the file just written answers 409 and leaves it
  alone: over the two calls the list has grown by exactly one entry.
\<close>

theorem migrate_conflict_or_append:
  "((\<exists>d'. route_migrate d key cmt = Inr (SendStatus 409, d')) =
    (\<exists>i. probeManagedKey d key = Inr \<lparr>result = True, index = i\<rparr>)) \<and>
   (\<forall>d'. route_migrate d key cmt = Inr (SendStatus 409, d') \<longrightarrow> d' = d) \<and>
   (\<forall>secrets i.
      getSecretState d = Inr (JObject secrets) \<and> managed_usable secrets \<and>
      key \<noteq> ''managed'' \<and> key \<notin> set Object_prototype_names \<and>
      probeManagedKey d key = Inr \<lparr>result = False, index = i\<rparr> \<longrightarrow>
      (\<exists>d' secrets'. route_migrate d key cmt = Inr (SendStatus 204, d') \<and>
         getSecretState d' = Inr (JObject secrets') \<and>
         managed_list secrets' key =
           Some ((case managed_list secrets key of None \<Rightarrow> [] | Some xs \<Rightarrow> xs) @
                 [ManagedKey cmt (property secrets key)]) \<and>
         (\<forall>k. k \<noteq> key \<longrightarrow> managed_list secrets' k = managed_list secrets k) \<and>
         (\<forall>k. k \<noteq> ''managed'' \<longrightarrow> property secrets' k = property secrets k) \<and>
         ((\<forall>m. property secrets key \<noteq> Obj m) \<longrightarrow>
            route_migrate d' key cmt = Inr (SendStatus 409, d'))))"
proof (intro conjI allI impI)
  show "(\<exists>d'. route_migrate d key cmt = Inr (SendStatus 409, d')) =
    (\<exists>i. probeManagedKey d key = Inr \<lparr>result = True, index = i\<rparr>)"
    by (rule route_migrate_conflict_iff)
next
  fix d'
  assume "route_migrate d key cmt = Inr (SendStatus 409, d')"
  then show "d' = d" by (rule route_migrate_conflict_same)
next
  fix secrets i
  assume h: "getSecretState d = Inr (JObject secrets) \<and> managed_usable secrets \<and>
      key \<noteq> ''managed'' \<and> key \<notin> set Object_prototype_names \<and>
      probeManagedKey d key = Inr \<lparr>result = False, index = i\<rparr>"
  then have load: "getSecretState d = Inr (JObject secrets)" and shape: "managed_usable secrets"
    and k: "key \<noteq> ''managed''" and ord: "key \<notin> set Object_prototype_names"
    and np: "probeManagedKey d key = Inr \<lparr>result = False, index = i\<rparr>" by simp_all
  show "\<exists>d' secrets'. route_migrate d key cmt = Inr (SendStatus 204, d') \<and>
         getSecretState d' = Inr (JObject secrets') \<and>
         managed_list secrets' key =
           Some ((case managed_list secrets key of None \<Rightarrow> [] | Some xs \<Rightarrow> xs) @
                 [ManagedKey cmt (property secrets key)]) \<and>
         (\<forall>k. k \<noteq> key \<longrightarrow> managed_list secrets' k = managed_list secrets k) \<and>
         (\<forall>k. k \<noteq> ''managed'' \<longrightarrow> property secrets' k = property secrets k) \<and>
         ((\<forall>m. property secrets key \<noteq> Obj m) \<longrightarrow>
            route_migrate d' key cmt = Inr (SendStatus 409, d'))"
    by (rule route_migrate_appends [OF load shape k ord np])
qed

theorem migrate_conflict_or_append_witness:
  "\<exists>d' secrets'.
      route_migrate (Some (Parses (JObject legacy_doc))) ''k'' ''first'' = Inr (SendStatus 204, d') \<and>
      getSecretState d' = Inr (JObject secrets') \<and>
      managed_list secrets' ''k'' = Some [ManagedKey ''first'' (Str ''v1'')] \<and>
      property secrets' ''k'' = Str ''v1'' \<and>
      route_migrate d' ''k'' ''first'' = Inr (SendStatus 409, d') \<and>
      (\<exists>i. probeManagedKey d' ''k'' = Inr \<lparr>result = True, index = i\<rparr>)"
proof -
  let ?d = "Some (Parses (JObject legacy_doc))"
  have l: "getSecretState ?d = Inr (JObject legacy_doc)" by simp
  have u: "managed_usable legacy_doc"
    by (simp add: managed_usable_def legacy_doc_def property_def)
  have k: "''k'' \<noteq> ''managed''" by simp
  have ord: "''k'' \<notin> set Object_prototype_names" by code_simp
  have m: "managed_list legacy_doc ''k'' = None"
    by (simp add: managed_list_def legacy_doc_def property_def)
  have A: "property legacy_doc ''k'' = Str ''v1''"
    by (simp add: legacy_doc_def property_def)
  have np: "probeManagedKey ?d ''k'' = Inr \<lparr>result = False, index = -1\<rparr>"
    by (simp add: probeManagedKey_loaded [OF l] m)
  have no: "\<forall>m. property legacy_doc ''k'' \<noteq> Obj m" by (simp add: A)
  note t = migrate_conflict_or_append [of ?d "''k''" "''first''"]
  have hyp: "getSecretState ?d = Inr (JObject legacy_doc) \<and> managed_usable legacy_doc \<and>
      ''k'' \<noteq> ''managed'' \<and> ''k'' \<notin> set Object_prototype_names \<and>
      probeManagedKey ?d ''k'' = Inr \<lparr>result = False, index = -1\<rparr>"
    using l u k ord np by (intro conjI)
  from t [THEN conjunct2, THEN conjunct2, rule_format, OF hyp]
  obtain d' secrets' where r: "route_migrate ?d ''k'' ''first'' = Inr (SendStatus 204, d')"
    and l': "getSecretState d' = Inr (JObject secrets')"
    and m': "managed_list secrets' ''k'' =
           Some ((case managed_list legacy_doc ''k'' of None \<Rightarrow> [] | Some xs \<Rightarrow> xs) @
                 [ManagedKey ''first'' (property legacy_doc ''k'')])"
    and p': "\<forall>k. k \<noteq> ''managed'' \<longrightarrow> property secrets' k = property legacy_doc k"
    and c': "(\<forall>m. property legacy_doc ''k'' \<noteq> Obj m) \<longrightarrow>
            route_migrate d' ''k'' ''first'' = Inr (SendStatus 409, d')"
    by (elim exE conjE)
  have m2: "managed_list secrets' ''k'' = Some [ManagedKey ''first'' (Str ''v1'')]"
    using m' by (simp add: m A)
  have p2: "property secrets' ''k'' = Str ''v1''"
    using p' [rule_format, OF k] by (simp add: A)
  have c2: "route_migrate d' ''k'' ''first'' = Inr (SendStatus 409, d')"
    using c' no by simp
  have "\<exists>d''. route_migrate d' ''k'' ''first'' = Inr (SendStatus 409, d'')"
    using c2 by (intro exI)
  then have pr: "\<exists>i. probeManagedKey d' ''k'' = Inr \<lparr>result = True, index = i\<rparr>"
    using migrate_conflict_or_append [of d' "''k''" "''first''", THEN conjunct1] by simp
  from r l' m2 p2 c2 pr show ?thesis by (intro exI [of _ d'] exI [of _ secrets'] conjI)
qed

text \<open>
  The claim as it was stated speaks of every key and every document. On a store without a
  file and with the key \<open>managed\<close>, the active value is the managed object itself, which
  is \<open>===\<close> to no entry: both calls answer 204 and the list has two entries. Once
  \<open>writeSecret\<close> has put a string into the field \<open>managed\<close>, the probe reports "not
  managed" but the append throws, so the handler neither answers Conflict nor appends.
  And with the key \<open>constructor\<close> on a store without a file the probe reports "not
  managed" and the append throws as well.
\<close>

theorem migrate_twice_counterexample:
  "(\<exists>d1 d2 secrets2 e1 e2.
      route_migrate None ''managed'' ''c'' = Inr (SendStatus 204, d1) \<and>
      route_migrate d1 ''managed'' ''c'' = Inr (SendStatus 204, d2) \<and>
      getSecretState d2 = Inr (JObject secrets2) \<and>
      managed_list secrets2 ''managed'' = Some [e1, e2]) \<and>
   (\<exists>d0. writeSecret None ''managed'' (Str ''x'') = Inr d0 \<and>
      probeManagedKey d0 ''k'' = Inr \<lparr>result = False, index = -1\<rparr> \<and>
      route_migrate d0 ''k'' ''c'' = Inl TypeError) \<and>
   probeManagedKey None ''constructor'' = Inr \<lparr>result = False, index = -1\<rparr> \<and>
   route_migrate None ''constructor'' ''c'' = Inl TypeError"
proof -
  have om: "''managed'' \<notin> set Object_prototype_names" by code_simp
  have step: "\<exists>d' secrets' e. route_migrate d ''managed'' ''c'' = Inr (SendStatus 204, d') \<and>
      getSecretState d' = Inr (JObject secrets') \<and>
      managed_list secrets' ''managed'' = Some (L @ [e]) \<and>
      (\<exists>m. property secrets' ''managed'' = Obj m)"
    if l: "getSecretState d = Inr (JObject secrets)"
      and p: "property secrets ''managed'' = Obj m"
      and L: "L = (case managed_list secrets ''managed'' of None \<Rightarrow> [] | Some xs \<Rightarrow> xs)"
    for d secrets m L
  proof -
    have u: "managed_usable secrets" by (simp add: managed_usable_def p)
    have np: "probeManagedKey d ''managed'' = Inr \<lparr>result = False, index = -1\<rparr>"
    proof (cases "managed_list secrets ''managed''")
      case None
      then show ?thesis by (simp add: probeManagedKey_loaded [OF l])
    next
      case (Some xs)
      have "\<forall>x \<in> set xs. \<not> strict_eq (val x) (Obj m)" by simp
      then have "findIndex (\<lambda>k. strict_eq (val k) (Obj m)) xs = -1"
        by (simp only: findIndex_none)
      with Some show ?thesis by (simp add: probeManagedKey_loaded [OF l] p)
    qed
    from appended [OF l u om, of "''c''" "Obj m"]
    obtain d' secrets' where a: "appendManagedKey d ''managed'' ''c'' (Obj m) = Inr d'"
      and l': "getSecretState d' = Inr (JObject secrets')"
      and m': "managed_list secrets' ''managed'' = Some (L @ [ManagedKey ''c'' (JSON_value (Obj m))])"
      unfolding L by (elim exE conjE)
    from managed_own [OF m'] obtain m2 where "secrets' ''managed'' = Some (Obj m2)" by blast
    then have p': "property secrets' ''managed'' = Obj m2" by (simp add: property_def)
    have r: "route_migrate d ''managed'' ''c'' = Inr (SendStatus 204, d')"
      using np a by (simp add: route_migrate_def readSecret_loaded [OF l] p)
    from r l' m' p' show ?thesis
      by (intro exI [of _ d'] exI [of _ secrets'] exI [of _ m2]
            exI [of _ "ManagedKey ''c'' (JSON_value (Obj m))"] conjI)
  qed
  have l0: "getSecretState None = Inr (JObject INITIAL_STATE)" by simp
  have p0: "property INITIAL_STATE ''managed'' = Obj Map.empty"
    by (simp add: INITIAL_STATE_def property_def)
  have m0: "managed_list INITIAL_STATE ''managed'' = None" by (simp add: managed_list_def p0)
  from step [OF l0 p0, of "[]"] m0
  obtain d1 s1 e1 m1 where r1: "route_migrate None ''managed'' ''c'' = Inr (SendStatus 204, d1)"
    and l1: "getSecretState d1 = Inr (JObject s1)"
    and ml1: "managed_list s1 ''managed'' = Some [e1]"
    and p1: "property s1 ''managed'' = Obj m1"
    by (elim exE conjE | simp)+
  from step [OF l1 p1, of "[e1]"] ml1
  obtain d2 s2 e2 where r2: "route_migrate d1 ''managed'' ''c'' = Inr (SendStatus 204, d2)"
    and l2: "getSecretState d2 = Inr (JObject s2)"
    and ml2: "managed_list s2 ''managed'' = Some [e1, e2]"
    by (elim exE conjE | simp)+
  have first: "\<exists>d1 d2 secrets2 e1 e2.
      route_migrate None ''managed'' ''c'' = Inr (SendStatus 204, d1) \<and>
      route_migrate d1 ''managed'' ''c'' = Inr (SendStatus 204, d2) \<and>
      getSecretState d2 = Inr (JObject secrets2) \<and>
      managed_list secrets2 ''managed'' = Some [e1, e2]"
    using r1 r2 l2 ml2 by (intro exI conjI)
  let ?t0 = "JSON_object (assign INITIAL_STATE ''managed'' (Str ''x''))"
  let ?d0 = "updateSecretState (JObject (assign INITIAL_STATE ''managed'' (Str ''x'')))"
  have w: "writeSecret None ''managed'' (Str ''x'') = Inr ?d0"
    by (rule writeSecret_loaded [OF l0])
  have lt: "getSecretState ?d0 = Inr (JObject ?t0)" by simp
  have At: "property ?t0 ''managed'' = Str ''x''"
    by (rule property_after_assign_same [OF om]) simp_all
  have mt: "managed_list ?t0 ''k'' = None" by (simp add: managed_list_def At)
  have ut: "\<not> managed_usable ?t0" by (simp add: managed_usable_def At)
  have pt: "probeManagedKey ?d0 ''k'' = Inr \<lparr>result = False, index = -1\<rparr>"
    by (simp add: probeManagedKey_loaded [OF lt] mt)
  have at: "appendManagedKey ?d0 ''k'' ''c'' v = Inl TypeError" for v
    unfolding appendManagedKey_cases [OF lt] using ut by simp
  have rt: "route_migrate ?d0 ''k'' ''c'' = Inl TypeError"
    by (simp add: route_migrate_def pt readSecret_loaded [OF lt] at)
  have second: "\<exists>d0. writeSecret None ''managed'' (Str ''x'') = Inr d0 \<and>
      probeManagedKey d0 ''k'' = Inr \<lparr>result = False, index = -1\<rparr> \<and>
      route_migrate d0 ''k'' ''c'' = Inl TypeError"
    using w pt rt by (intro exI conjI)
  have oc: "''constructor'' \<in> set Object_prototype_names" by code_simp
  have mc: "managed_map INITIAL_STATE ''constructor'' = None"
    by (simp add: managed_map_def p0)
  have pc: "probeManagedKey None ''constructor'' = Inr \<lparr>result = False, index = -1\<rparr>"
    by (simp add: probeManagedKey_loaded [OF l0] managed_list_eq_map mc)
  have ac: "appendManagedKey None ''constructor'' ''c'' v = Inl TypeError" for v
    unfolding appendManagedKey_cases [OF l0] using oc mc by simp
  have rc: "route_migrate None ''constructor'' ''c'' = Inl TypeError"
    by (simp add: route_migrate_def pc readSecret_loaded [OF l0] ac)
  from first second pc rc show ?thesis by (intro conjI)
qed

subsection \<open>C3: a file that does not parse\<close>

text \<open>
  Claim C3, as amended. When the file exists and \<open>JSON.parse\<close> rejects its text,
  \<open>getSecretState\<close> throws the parser's error, and so does every function that loads the
  file: the readers (\<open>readSecret\<close>, \<open>probeManagedKey\<close>, \<open>readManagedSecretsState\<close>,
  \<open>readSecretState\<close>, \<open>getAllSecrets\<close>), the writers and the migrate handler. None of them
  returns an empty document in its place. An absent file gives the fresh document
  \<open>{managed: {}}\<close>, and \<open>{}\<close> for \<open>readSecretState\<close>.

  Nothing checks what a file that parses holds: it loads as the value it holds. On a
  number or a boolean every read is \<open>undefined\<close> (or a method of the prototype), every
  flag is false and the view is empty; on \<open>null\<close> the reads throw a TypeError. The
  handler of \<open>/read\<close> catches every error and sends the empty object.
\<close>

theorem unparseable_file_raises:
  "getSecretState (Some Unparseable) = Inl SyntaxError \<and>
   getSecretState None = Inr (JObject INITIAL_STATE) \<and>
   readSecret (Some Unparseable) key = Inl SyntaxError \<and>
   probeManagedKey (Some Unparseable) key = Inl SyntaxError \<and>
   readManagedSecretsState (Some Unparseable) = Inl SyntaxError \<and>
   readSecretState (Some Unparseable) = Inl SyntaxError \<and>
   getAllSecrets (Some Unparseable) = Inl SyntaxError \<and>
   writeSecret (Some Unparseable) key v = Inl SyntaxError \<and>
   deleteSecret (Some Unparseable) key = Inl SyntaxError \<and>
   rotateManagedSecret (Some Unparseable) key search = Inl SyntaxError \<and>
   appendManagedKey (Some Unparseable) key cmt v = Inl SyntaxError \<and>
   spliceManagedKey (Some Unparseable) key i = Inl SyntaxError \<and>
   route_migrate (Some Unparseable) key cmt = Inl SyntaxError \<and>
   readSecretState None = Inr [] \<and>
   route_read (Some Unparseable) = SendFlags [] \<and>
   getSecretState (Some (Parses j)) = Inr (JSON_parse_stringify j) \<and>
   getAllSecrets (Some (Parses j)) = Inr (Some (JSON_parse_stringify j)) \<and>
   readSecret (Some (Parses (JPrimitive p))) key = Inr (inherited_primitive p key) \<and>
   readSecretState (Some (Parses (JPrimitive p))) =
     Inr (map (\<lambda>key. (key, False)) (filter (\<lambda>key. key \<noteq> ''managed'') SECRET_KEYS)) \<and>
   readManagedSecretsState (Some (Parses (JPrimitive p))) = Inr Map.empty \<and>
   probeManagedKey (Some (Parses (JPrimitive p))) key = Inr \<lparr>result = False, index = -1\<rparr> \<and>
   readSecret (Some (Parses JNull)) key = Inl TypeError \<and>
   readSecretState (Some (Parses JNull)) = Inl TypeError \<and>
   route_read (Some (Parses JNull)) = SendFlags []"
  by (simp add: readSecret_def probeManagedKey_def readManagedSecretsState_def
      readSecretState_def getAllSecrets_def writeSecret_def deleteSecret_def
      rotateManagedSecret_def appendManagedKey_def spliceManagedKey_def route_migrate_def
      route_read_def flags_of_primitive)

text \<open>
  The claim as it was stated includes the flag-reading operation that callers reach, the
  handler of \<open>/read\<close>, and promises the error for every file that is not a document.
  In the handler the error is swallowed: an unparseable file and an absent file get the
  same answer, \<open>{}\<close>. And a file that holds \<open>42\<close> is not a document, yet it loads without
  an error, and a secret or the view read from it is what a store without a file gives.
\<close>

theorem unparseable_file_counterexample:
  "route_read (Some Unparseable) = SendFlags [] \<and> route_read None = SendFlags [] \<and>
   getSecretState (Some (Parses (JPrimitive (JNumber 42)))) = Inr (JPrimitive (JNumber 42)) \<and>
   readSecret (Some (Parses (JPrimitive (JNumber 42)))) ''api_key_openai'' = Inr Undefined \<and>
   readSecret None ''api_key_openai'' = Inr Undefined \<and>
   readManagedSecretsState (Some (Parses (JPrimitive (JNumber 42)))) =
     readManagedSecretsState None"
proof -
  have k: "''api_key_openai'' \<in> set SECRET_KEYS" by code_simp
  with SECRET_KEYS_ordinary
  have i: "inherited ''api_key_openai'' = Undefined"
    "''api_key_openai'' \<notin> set Number_prototype_functions" by blast+
  have m: "''managed'' \<noteq> ''api_key_openai''" by simp
  have a: "readSecret (Some (Parses (JPrimitive (JNumber 42)))) ''api_key_openai'' = Inr Undefined"
    using i by (simp add: readSecret_def)
  have b: "readSecret None ''api_key_openai'' = Inr Undefined"
    using i(1) m by (simp add: readSecret_def property_def INITIAL_STATE_def)
  have c: "readManagedSecretsState (Some (Parses (JPrimitive (JNumber 42)))) =
     readManagedSecretsState None"
    by (simp add: readManagedSecretsState_def property_def INITIAL_STATE_def fun_eq_iff)
  have e: "route_read (Some Unparseable) = SendFlags [] \<and> route_read None = SendFlags []"
    by (simp add: route_read_def readSecretState_def)
  from a b c e show ?thesis by simp
qed

subsection \<open>C4: the precedence of the search argument\<close>

text \<open>
  Claim C4, as amended. Let the file load as an object in which the managed list \<open>L\<close> of
  \<open>key\<close> is not empty. Then \<open>rotateManagedSecret\<close> is \<open>writeSecret\<close> of the value of a
  selected entry, which for a key that is not a name of \<open>Object.prototype\<close> is the active
  value read afterwards, and the entry is selected with this precedence:
  \<^item> a search that is an integer in \<open>[0, len(L))\<close> selects \<open>L[search]\<close>;
  \<^item> else a search that is a string, non-empty after trimming, selects the first entry
    whose comment, trimmed and lower-cased, equals the trimmed, lower-cased search;
  \<^item> in every other case (no search, a number that is not an integer in range, a string
    that is empty or only white space, a string that no comment matches) the entry is the
    cyclic-next one of claim C1.
\<close>

theorem rotate_search_precedence:
  assumes load: "getSecretState d = Inr (JObject secrets)"
    and lst: "managed_list secrets key = Some L" and ne: "L \<noteq> []"
  shows "\<exists>sel. rotateManagedSecret d key search = writeSecret d key (val sel) \<and>
     (key \<notin> set Object_prototype_names \<longrightarrow>
        (\<exists>d'. rotateManagedSecret d key search = Inr d' \<and> readSecret d' key = Inr (val sel))) \<and>
     (\<forall>n. search = SearchNumber (Finite (of_int n)) \<and> 0 \<le> n \<and> n < int (length L) \<longrightarrow>
        sel = L ! nat n) \<and>
     (\<forall>s j. search = SearchString s \<and> trim s \<noteq> [] \<and> j < length L \<and>
        comment_matches s (L ! j) \<and> (\<forall>i < j. \<not> comment_matches s (L ! i)) \<longrightarrow>
        sel = L ! j) \<and>
     (search = NoSearch \<or>
      (\<exists>x. search = SearchNumber x \<and>
         (\<forall>n. 0 \<le> n \<and> n < int (length L) \<longrightarrow> x \<noteq> Finite (of_int n))) \<or>
      (\<exists>s. search = SearchString s \<and>
         (trim s = [] \<or> (\<forall>e \<in> set L. \<not> comment_matches s e))) \<longrightarrow>
      sel = next_entry L (property secrets key))"
proof -
  let ?A = "property secrets key"
  define sel where "sel = (case search of
          SearchNumber n \<Rightarrow>
            (case element L n of Some e \<Rightarrow> e | None \<Rightarrow> next_entry L ?A)
        | SearchString s \<Rightarrow>
            if trim s \<noteq> []
            then (case find (comment_matches s) L of
                    Some e \<Rightarrow> e
                  | None \<Rightarrow> next_entry L ?A)
            else next_entry L ?A
        | NoSearch \<Rightarrow> next_entry L ?A)"
  have cl: "JSON_object secrets = secrets" by (rule loaded_clean [OF load])
  have r: "rotateManagedSecret d key search = writeSecret d key (val sel)"
    unfolding sel_def by (rule rotate_selected [OF load lst ne])
  have nx: "next_entry L ?A \<in> set L"
    using ne findIndex_range [of "\<lambda>k. strict_eq (val k) ?A" L]
    by (auto simp: next_entry_def Let_def)
  have el: "e \<in> set L" if "element L x = Some e" for x e
    using that by (cases x) (auto split: if_splits)
  have fi: "e \<in> set L" if "find (comment_matches s) L = Some e" for s e
    using that unfolding find_Some_iff by auto
  have mem: "sel \<in> set L"
    unfolding sel_def using nx el fi by (auto split: search.splits option.splits)
  have cv: "JSON_value (val sel) = val sel"
    by (rule managed_entry_clean [OF cl lst mem])
  have rb: "key \<notin> set Object_prototype_names \<longrightarrow>
      (\<exists>d'. rotateManagedSecret d key search = Inr d' \<and> readSecret d' key = Inr (val sel))"
    unfolding r using read_back [OF load _ cv clean_not_native [OF cv]] by blast
  have c1: "\<forall>n. search = SearchNumber (Finite (of_int n)) \<and> 0 \<le> n \<and> n < int (length L) \<longrightarrow>
      sel = L ! nat n"
    unfolding sel_def by auto
  have c2: "\<forall>s j. search = SearchString s \<and> trim s \<noteq> [] \<and> j < length L \<and>
        comment_matches s (L ! j) \<and> (\<forall>i < j. \<not> comment_matches s (L ! i)) \<longrightarrow>
        sel = L ! j"
  proof (intro allI impI)
    fix s j
    assume h: "search = SearchString s \<and> trim s \<noteq> [] \<and> j < length L \<and>
        comment_matches s (L ! j) \<and> (\<forall>i < j. \<not> comment_matches s (L ! i))"
    then have "find (comment_matches s) L = Some (L ! j)"
      unfolding find_Some_iff by blast
    with h show "sel = L ! j" by (simp add: sel_def)
  qed
  have c3: "search = NoSearch \<or>
      (\<exists>x. search = SearchNumber x \<and>
         (\<forall>n. 0 \<le> n \<and> n < int (length L) \<longrightarrow> x \<noteq> Finite (of_int n))) \<or>
      (\<exists>s. search = SearchString s \<and>
         (trim s = [] \<or> (\<forall>e \<in> set L. \<not> comment_matches s e))) \<longrightarrow>
      sel = next_entry L ?A"
  proof -
    have f: "find (comment_matches s) L = None" if "\<forall>e \<in> set L. \<not> comment_matches s e" for s
      using that by (simp add: find_None_iff)
    have e: "element L x = None"
      if h: "\<forall>n. 0 \<le> n \<and> n < int (length L) \<longrightarrow> x \<noteq> Finite (of_int n)" for x
    proof (cases x)
      case (Finite q)
      show ?thesis
      proof (rule ccontr)
        assume "element L x \<noteq> None"
        with Finite have q: "q = of_int \<lfloor>q\<rfloor>" "0 \<le> q" "q < of_nat (length L)"
          by (auto split: if_splits)
        then have "0 \<le> \<lfloor>q\<rfloor>" "\<lfloor>q\<rfloor> < int (length L)" by (simp_all add: floor_less_iff)
        with h have "x \<noteq> Finite (of_int \<lfloor>q\<rfloor>)" by blast
        with Finite q(1) show False by simp
      qed
    qed simp_all
    show ?thesis unfolding sel_def using f e by auto
  qed
  from r rb c1 c2 c3 show ?thesis by (intro exI [of _ sel] conjI)
qed

theorem rotate_search_precedence_witness:
  "(\<exists>d'. rotateManagedSecret (Some (Parses (JObject prod_doc))) ''k'' (SearchNumber (Finite 2)) = Inr d' \<and>
      readSecret d' ''k'' = Inr (Str ''3'')) \<and>
   (\<exists>d'. rotateManagedSecret (Some (Parses (JObject prod_doc))) ''k'' (SearchString ''prod'') = Inr d' \<and>
      readSecret d' ''k'' = Inr (Str ''2'')) \<and>
   (\<exists>d'. rotateManagedSecret (Some (Parses (JObject prod_doc))) ''k'' (SearchString ''none'') = Inr d' \<and>
      readSecret d' ''k'' = Inr (Str ''1'')) \<and>
   (\<exists>d'. rotateManagedSecret (Some (Parses (JObject prod_doc))) ''k'' (SearchNumber (Finite (3 / 2))) = Inr d' \<and>
      readSecret d' ''k'' = Inr (Str ''1''))"
proof -
  let ?d = "Some (Parses (JObject prod_doc))"
  have l: "getSecretState ?d = Inr (JObject prod_doc)" by simp
  have m: "managed_list prod_doc ''k'' = Some prod_list"
    by (simp add: managed_list_def prod_doc_def property_def)
  have ne: "prod_list \<noteq> []" by (simp add: prod_list_def)
  have k: "''k'' \<notin> set Object_prototype_names" by code_simp
  have A: "property prod_doc ''k'' = Undefined"
    by (simp add: prod_doc_def property_def inherited_ordinary [OF k])
  have len: "length prod_list = 3" by (simp add: prod_list_def)
  have v0: "val (prod_list ! 0) = Str ''1''" and v1: "val (prod_list ! 1) = Str ''2''"
    and v2: "val (prod_list ! 2) = Str ''3''" by (simp_all add: prod_list_def)
  have nx: "next_entry prod_list Undefined = prod_list ! 0"
    by (rule next_entry_unmatched) (simp add: prod_list_def)
  have t: "trim ''prod'' \<noteq> []" by code_simp
  have c1: "comment_matches ''prod'' (prod_list ! 1)" by code_simp
  have c0: "\<not> comment_matches ''prod'' (prod_list ! 0)" by code_simp
  have cn: "\<forall>e \<in> set prod_list. \<not> comment_matches ''none'' e" by code_simp
  note th = rotate_search_precedence [OF l m ne]
  have a: "\<exists>d'. rotateManagedSecret ?d ''k'' (SearchNumber (Finite 2)) = Inr d' \<and>
      readSecret d' ''k'' = Inr (Str ''3'')"
  proof -
    from th [of "SearchNumber (Finite 2)"]
    obtain sel where
      rb: "''k'' \<notin> set Object_prototype_names \<longrightarrow>
        (\<exists>d'. rotateManagedSecret ?d ''k'' (SearchNumber (Finite 2)) = Inr d' \<and>
           readSecret d' ''k'' = Inr (val sel))"
      and s: "\<forall>n. SearchNumber (Finite 2) = SearchNumber (Finite (of_int n)) \<and> 0 \<le> n \<and>
                n < int (length prod_list) \<longrightarrow> sel = prod_list ! nat n"
      by (elim exE conjE)
    from s [rule_format, of 2] have "sel = prod_list ! 2" by (simp add: len)
    with rb [rule_format, OF k] v2 show ?thesis by simp
  qed
  have b: "\<exists>d'. rotateManagedSecret ?d ''k'' (SearchString ''prod'') = Inr d' \<and>
      readSecret d' ''k'' = Inr (Str ''2'')"
  proof -
    from th [of "SearchString ''prod''"]
    obtain sel where
      rb: "''k'' \<notin> set Object_prototype_names \<longrightarrow>
        (\<exists>d'. rotateManagedSecret ?d ''k'' (SearchString ''prod'') = Inr d' \<and>
           readSecret d' ''k'' = Inr (val sel))"
      and s: "\<forall>s j. SearchString ''prod'' = SearchString s \<and> trim s \<noteq> [] \<and>
                j < length prod_list \<and> comment_matches s (prod_list ! j) \<and>
                (\<forall>i < j. \<not> comment_matches s (prod_list ! i)) \<longrightarrow> sel = prod_list ! j"
      by (elim exE conjE)
    from s [rule_format, of "''prod''" 1] t c1 c0 have "sel = prod_list ! 1"
      by (simp add: len)
    with rb [rule_format, OF k] v1 show ?thesis by simp
  qed
  have c: "\<exists>d'. rotateManagedSecret ?d ''k'' (SearchString ''none'') = Inr d' \<and>
      readSecret d' ''k'' = Inr (Str ''1'')"
  proof -
    from th [of "SearchString ''none''"]
    obtain sel where
      rb: "''k'' \<notin> set Object_prototype_names \<longrightarrow>
        (\<exists>d'. rotateManagedSecret ?d ''k'' (SearchString ''none'') = Inr d' \<and>
           readSecret d' ''k'' = Inr (val sel))"
      and s: "SearchString ''none'' = NoSearch \<or>
          (\<exists>x. SearchString ''none'' = SearchNumber x \<and>
             (\<forall>n. 0 \<le> n \<and> n < int (length prod_list) \<longrightarrow> x \<noteq> Finite (of_int n))) \<or>
          (\<exists>s. SearchString ''none'' = SearchString s \<and>
             (trim s = [] \<or> (\<forall>e \<in> set prod_list. \<not> comment_matches s e))) \<longrightarrow>
          sel = next_entry prod_list (property prod_doc ''k'')"
      by (elim exE conjE)
    from s cn have "sel = next_entry prod_list (property prod_doc ''k'')" by blast
    with rb [rule_format, OF k] v0 nx A show ?thesis by simp
  qed
  have e: "\<exists>d'. rotateManagedSecret ?d ''k'' (SearchNumber (Finite (3 / 2))) = Inr d' \<and>
      readSecret d' ''k'' = Inr (Str ''1'')"
  proof -
    from th [of "SearchNumber (Finite (3 / 2))"]
    obtain sel where
      rb: "''k'' \<notin> set Object_prototype_names \<longrightarrow>
        (\<exists>d'. rotateManagedSecret ?d ''k'' (SearchNumber (Finite (3 / 2))) = Inr d' \<and>
           readSecret d' ''k'' = Inr (val sel))"
      and s: "SearchNumber (Finite (3 / 2)) = NoSearch \<or>
          (\<exists>x. SearchNumber (Finite (3 / 2)) = SearchNumber x \<and>
             (\<forall>n. 0 \<le> n \<and> n < int (length prod_list) \<longrightarrow> x \<noteq> Finite (of_int n))) \<or>
          (\<exists>s. SearchNumber (Finite (3 / 2)) = SearchString s \<and>
             (trim s = [] \<or> (\<forall>e \<in> set prod_list. \<not> comment_matches s e))) \<longrightarrow>
          sel = next_entry prod_list (property prod_doc ''k'')"
      by (elim exE conjE)
    have "(3 / 2 :: rat) \<noteq> of_int n" for n
    proof
      assume "(3 / 2 :: rat) = of_int n"
      then have "(3 :: rat) = of_int (2 * n)" by simp
      then have "(3 :: int) = 2 * n" using of_int_eq_iff [of 3 "2 * n", where 'a = rat] by simp
      then show False by presburger
    qed
    then have "\<forall>n. 0 \<le> n \<and> n < int (length prod_list) \<longrightarrow>
        Finite (3 / 2) \<noteq> Finite (of_int n)" by simp
    with s have "sel = next_entry prod_list (property prod_doc ''k'')" by blast
    with rb [rule_format, OF k] v0 nx A show ?thesis by simp
  qed
  from a b c e show ?thesis by (intro conjI)
qed

text \<open>
  The claim as it was stated applies the comment rule to every non-empty string. The code
  tests \<open>searchValue.trim().length > 0\<close>: for the search \<open>" "\<close> over comments \<open>"x"\<close> and
  \<open>" "\<close> the claim selects the second entry, whose trimmed comment is the trimmed search,
  and the code takes the cyclic-next entry, the first.
\<close>

theorem blank_search_counterexample:
  "(\<exists>d'. rotateManagedSecret (Some (Parses (JObject blank_doc))) ''k'' (SearchString '' '') = Inr d' \<and>
      readSecret d' ''k'' = Inr (Str ''1'')) \<and>
   val (claimed_selection blank_list (SearchString '' '') (property blank_doc ''k'')) = Str ''2''"
proof -
  let ?d = "Some (Parses (JObject blank_doc))"
  have l: "getSecretState ?d = Inr (JObject blank_doc)" by simp
  have m: "managed_list blank_doc ''k'' = Some blank_list"
    by (simp add: managed_list_def blank_doc_def property_def)
  have ne: "blank_list \<noteq> []" by (simp add: blank_list_def)
  have k: "''k'' \<notin> set Object_prototype_names" by code_simp
  have A: "property blank_doc ''k'' = Undefined"
    by (simp add: blank_doc_def property_def inherited_ordinary [OF k])
  have t: "trim '' '' = []" by code_simp
  have nx: "next_entry blank_list Undefined = blank_list ! 0"
    by (rule next_entry_unmatched) (simp add: blank_list_def)
  have v0: "val (blank_list ! 0) = Str ''1''" by (simp add: blank_list_def)
  have "rotateManagedSecret ?d ''k'' (SearchString '' '') = writeSecret ?d ''k'' (Str ''1'')"
    unfolding rotate_selected [OF l m ne] by (simp add: t A nx v0)
  with read_back [OF l k, of "Str ''1''"]
  have a: "\<exists>d'. rotateManagedSecret ?d ''k'' (SearchString '' '') = Inr d' \<and>
      readSecret d' ''k'' = Inr (Str ''1'')" by simp
  have x: "toLowerCase (trim ''x'') \<noteq> toLowerCase (trim '' '')" by code_simp
  have f: "find (comment_matches '' '') blank_list = Some (ManagedKey '' '' (Str ''2''))"
    by (simp add: blank_list_def comment_matches_def x)
  have b: "val (claimed_selection blank_list (SearchString '' '') (property blank_doc ''k''))
      = Str ''2''"
    by (simp add: claimed_selection_def f)
  from a b show ?thesis by (intro conjI)
qed

subsection \<open>C6: probe after append and write\<close>

text \<open>
  Claim C6, as amended. Let the file load as a document whose field \<open>managed\<close> is absent,
  the empty string or an object, let \<open>L\<close> be the managed list of a key that is neither
  \<open>managed\<close> nor a name of \<open>Object.prototype\<close> (empty when there is none), and let \<open>v\<close> be
  a string. Then \<open>appendManagedKey\<close> of \<open>v\<close> followed by \<open>writeSecret\<close> of \<open>v\<close> both
  succeed, the list is \<open>L\<close> with the new entry at its end, and \<open>probeManagedKey\<close> returns
  \<open>result\<close> true with the index of the first entry whose value is \<open>v\<close>. That index is the
  position of the new entry, the last one, when no entry of \<open>L\<close> has the value \<open>v\<close>.
\<close>

theorem probe_after_append_and_write:
  assumes load: "getSecretState d = Inr (JObject secrets)" and shape: "managed_usable secrets"
    and k: "key \<noteq> ''managed''" and ord: "key \<notin> set Object_prototype_names"
  shows "\<exists>d1 d2 secrets2 L' i.
      appendManagedKey d key cmt (Str v) = Inr d1 \<and>
      writeSecret d1 key (Str v) = Inr d2 \<and>
      getSecretState d2 = Inr (JObject secrets2) \<and>
      managed_list secrets2 key = Some L' \<and>
      L' = (case managed_list secrets key of None \<Rightarrow> [] | Some xs \<Rightarrow> xs) @
           [ManagedKey cmt (Str v)] \<and>
      probeManagedKey d2 key = Inr \<lparr>result = True, index = int i\<rparr> \<and>
      i < length L' \<and> val (L' ! i) = Str v \<and> (\<forall>j < i. val (L' ! j) \<noteq> Str v) \<and>
      ((\<forall>e \<in> set (case managed_list secrets key of None \<Rightarrow> [] | Some xs \<Rightarrow> xs).
          val e \<noteq> Str v) \<longrightarrow> i = length L' - 1)"
proof -
  define L where "L = (case managed_list secrets key of None \<Rightarrow> [] | Some xs \<Rightarrow> xs)"
  define L' where "L' = L @ [ManagedKey cmt (Str v)]"
  let ?p = "\<lambda>k. strict_eq (val k) (Str v)"
  from append_then_write [OF load shape k ord, of cmt v v]
  obtain d1 d2 secrets2 where a: "appendManagedKey d key cmt (Str v) = Inr d1"
    and w: "writeSecret d1 key (Str v) = Inr d2"
    and l2: "getSecretState d2 = Inr (JObject secrets2)"
    and m2: "managed_list secrets2 key = Some L'"
    and p2: "property secrets2 key = Str v"
    unfolding L'_def L_def by (elim exE conjE)
  have pr: "probeManagedKey d2 key =
      Inr \<lparr>result = (findIndex ?p L' \<noteq> -1), index = findIndex ?p L'\<rparr>"
    by (simp add: probeManagedKey_loaded [OF l2] m2 p2)
  have "\<not> (\<forall>x \<in> set L'. \<not> ?p x)" by (simp add: L'_def)
  then have nm: "findIndex ?p L' \<noteq> -1"
    using findIndex_none [of ?p L'] by blast
  with findIndex_range [of ?p L'] have ge: "0 \<le> findIndex ?p L'" by linarith
  define i where "i = nat (findIndex ?p L')"
  have fi: "findIndex ?p L' = int i" using ge by (simp add: i_def)
  have lt: "i < length L'" using findIndex_range [of ?p L'] fi by linarith
  from findIndex_found [OF ge]
  have hit: "?p (L' ! i)" and first: "\<forall>j < i. \<not> ?p (L' ! j)"
    unfolding i_def by blast+
  have last: "i = length L' - 1" if h: "\<forall>e \<in> set L. val e \<noteq> Str v"
  proof -
    have "findIndex ?p L' = int (length L)"
    proof (rule findIndex_first)
      show "length L < length L'" by (simp add: L'_def)
      show "?p (L' ! length L)" by (simp add: L'_def)
      show "\<forall>j < length L. \<not> ?p (L' ! j)"
        using h by (simp add: L'_def nth_append strict_eq_to_Str)
    qed
    with fi show ?thesis by (simp add: L'_def)
  qed
  have r: "probeManagedKey d2 key = Inr \<lparr>result = True, index = int i\<rparr>"
    using pr nm fi by simp
  have hv: "val (L' ! i) = Str v" using hit by (simp only: strict_eq_to_Str)
  have fv: "\<forall>j < i. val (L' ! j) \<noteq> Str v"
    using first by (simp only: strict_eq_to_Str)
  have "appendManagedKey d key cmt (Str v) = Inr d1 \<and>
      writeSecret d1 key (Str v) = Inr d2 \<and>
      getSecretState d2 = Inr (JObject secrets2) \<and>
      managed_list secrets2 key = Some L' \<and>
      L' = L @ [ManagedKey cmt (Str v)] \<and>
      probeManagedKey d2 key = Inr \<lparr>result = True, index = int i\<rparr> \<and>
      i < length L' \<and> val (L' ! i) = Str v \<and> (\<forall>j < i. val (L' ! j) \<noteq> Str v) \<and>
      ((\<forall>e \<in> set L. val e \<noteq> Str v) \<longrightarrow> i = length L' - 1)"
    using a w l2 m2 r lt hv fv last L'_def by (intro conjI impI)
  then show ?thesis unfolding L_def by blast
qed

theorem probe_after_append_and_write_witness:
  "\<exists>d1 d2. appendManagedKey (Some (Parses (JObject active_doc))) ''k'' ''third'' (Str ''c'') = Inr d1 \<and>
      writeSecret d1 ''k'' (Str ''c'') = Inr d2 \<and>
      probeManagedKey d2 ''k'' = Inr \<lparr>result = True, index = 2\<rparr>"
proof -
  let ?d = "Some (Parses (JObject active_doc))"
  have l: "getSecretState ?d = Inr (JObject active_doc)" by simp
  have u: "managed_usable active_doc"
    by (simp add: managed_usable_def active_doc_def property_def)
  have k: "''k'' \<noteq> ''managed''" by simp
  have ord: "''k'' \<notin> set Object_prototype_names" by code_simp
  have m: "managed_list active_doc ''k'' =
      Some [ManagedKey ''first'' (Str ''a''), ManagedKey ''second'' (Str ''b'')]"
    by (simp add: managed_list_def active_doc_def property_def)
  from probe_after_append_and_write [OF l u k ord, of "''third''" "''c''"]
  obtain d1 d2 L' i where a: "appendManagedKey ?d ''k'' ''third'' (Str ''c'') = Inr d1"
    and w: "writeSecret d1 ''k'' (Str ''c'') = Inr d2"
    and L': "L' = (case managed_list active_doc ''k'' of None \<Rightarrow> [] | Some xs \<Rightarrow> xs) @
           [ManagedKey ''third'' (Str ''c'')]"
    and p: "probeManagedKey d2 ''k'' = Inr \<lparr>result = True, index = int i\<rparr>"
    and e: "(\<forall>e \<in> set (case managed_list active_doc ''k'' of None \<Rightarrow> [] | Some xs \<Rightarrow> xs).
          val e \<noteq> Str ''c'') \<longrightarrow> i = length L' - 1"
    by (elim exE conjE)
  from e L' have "i = 2" by (simp add: m)
  with a w p show ?thesis by simp
qed

text \<open>
  The claim as it was stated gives the position of the new entry for every document and
  key. With an older entry of the same value, \<open>findIndex\<close> stops at the older one: the
  probe answers 0 while the new entry is at position 1. With the key \<open>managed\<close>, the
  write replaces the lists by the string and the probe answers that nothing is managed.
  With the key \<open>constructor\<close> on a store without a file, \<open>secrets.managed[key]\<close> is the
  inherited function, no list is created and \<open>push\<close> throws.
\<close>

theorem probe_after_append_and_write_counterexample:
  "(\<exists>d1 d2 secrets2.
      appendManagedKey (Some (Parses (JObject dup_doc))) ''k'' ''new'' (Str ''v'') = Inr d1 \<and>
      writeSecret d1 ''k'' (Str ''v'') = Inr d2 \<and>
      getSecretState d2 = Inr (JObject secrets2) \<and>
      managed_list secrets2 ''k'' =
        Some [ManagedKey ''old'' (Str ''v''), ManagedKey ''new'' (Str ''v'')] \<and>
      probeManagedKey d2 ''k'' = Inr \<lparr>result = True, index = 0\<rparr>) \<and>
   (\<exists>d1 d2.
      appendManagedKey None ''managed'' ''new'' (Str ''v'') = Inr d1 \<and>
      writeSecret d1 ''managed'' (Str ''v'') = Inr d2 \<and>
      probeManagedKey d2 ''managed'' = Inr \<lparr>result = False, index = -1\<rparr>) \<and>
   appendManagedKey None ''constructor'' ''new'' (Str ''v'') = Inl TypeError"
proof -
  let ?d = "Some (Parses (JObject dup_doc))"
  have l: "getSecretState ?d = Inr (JObject dup_doc)" by simp
  have u: "managed_usable dup_doc"
    by (simp add: managed_usable_def dup_doc_def property_def)
  have k: "''k'' \<noteq> ''managed''" by simp
  have ord: "''k'' \<notin> set Object_prototype_names" by code_simp
  have m: "managed_list dup_doc ''k'' = Some [ManagedKey ''old'' (Str ''v'')]"
    by (simp add: managed_list_def dup_doc_def property_def)
  from append_then_write [OF l u k ord, of "''new''" "''v''" "''v''"]
  obtain d1 d2 secrets2 where a: "appendManagedKey ?d ''k'' ''new'' (Str ''v'') = Inr d1"
    and w: "writeSecret d1 ''k'' (Str ''v'') = Inr d2"
    and l2: "getSecretState d2 = Inr (JObject secrets2)"
    and m2: "managed_list secrets2 ''k'' =
        Some [ManagedKey ''old'' (Str ''v''), ManagedKey ''new'' (Str ''v'')]"
    and p2: "property secrets2 ''k'' = Str ''v''"
    unfolding m by (elim exE conjE) simp
  have pr: "probeManagedKey d2 ''k'' = Inr \<lparr>result = True, index = 0\<rparr>"
    by (simp add: probeManagedKey_loaded [OF l2] m2 p2)
  have first: "\<exists>d1 d2 secrets2.
      appendManagedKey ?d ''k'' ''new'' (Str ''v'') = Inr d1 \<and>
      writeSecret d1 ''k'' (Str ''v'') = Inr d2 \<and>
      getSecretState d2 = Inr (JObject secrets2) \<and>
      managed_list secrets2 ''k'' =
        Some [ManagedKey ''old'' (Str ''v''), ManagedKey ''new'' (Str ''v'')] \<and>
      probeManagedKey d2 ''k'' = Inr \<lparr>result = True, index = 0\<rparr>"
    using a w l2 m2 pr by (intro exI conjI)
  have l0: "getSecretState None = Inr (JObject INITIAL_STATE)" by simp
  have u0: "managed_usable INITIAL_STATE"
    by (simp add: managed_usable_def INITIAL_STATE_def property_def)
  have om: "''managed'' \<notin> set Object_prototype_names" by code_simp
  from appended [OF l0 u0 om, of "''new''" "Str ''v''"]
  obtain e1 s1 where a1: "appendManagedKey None ''managed'' ''new'' (Str ''v'') = Inr e1"
    and g1: "getSecretState e1 = Inr (JObject s1)"
    by (elim exE conjE)
  have w1: "writeSecret e1 ''managed'' (Str ''v'') =
      Inr (updateSecretState (JObject (assign s1 ''managed'' (Str ''v''))))"
    by (rule writeSecret_loaded [OF g1])
  let ?t = "JSON_object (assign s1 ''managed'' (Str ''v''))"
  have g2: "getSecretState (updateSecretState (JObject (assign s1 ''managed'' (Str ''v'')))) =
      Inr (JObject ?t)" by simp
  have pm: "property ?t ''managed'' = Str ''v''"
    by (rule property_after_assign_same [OF om]) simp_all
  have ml: "managed_list ?t ''managed'' = None" by (simp add: managed_list_def pm)
  have p1: "probeManagedKey (updateSecretState (JObject (assign s1 ''managed'' (Str ''v''))))
      ''managed'' = Inr \<lparr>result = False, index = -1\<rparr>"
    unfolding probeManagedKey_loaded [OF g2] ml by simp
  have second: "\<exists>d1 d2.
      appendManagedKey None ''managed'' ''new'' (Str ''v'') = Inr d1 \<and>
      writeSecret d1 ''managed'' (Str ''v'') = Inr d2 \<and>
      probeManagedKey d2 ''managed'' = Inr \<lparr>result = False, index = -1\<rparr>"
    using a1 w1 p1 by (intro exI conjI)
  have oc: "''constructor'' \<in> set Object_prototype_names" by code_simp
  have mc: "managed_map INITIAL_STATE ''constructor'' = None"
    by (simp add: managed_map_def INITIAL_STATE_def property_def)
  have third: "appendManagedKey None ''constructor'' ''new'' (Str ''v'') = Inl TypeError"
    unfolding appendManagedKey_cases [OF l0] using oc mc by simp
  from first second third show ?thesis by (intro conjI)
qed

subsection \<open>C7: the manager view\<close>

text \<open>
  Claim C7, as amended. Let the file load as a document whose field \<open>managed\<close> is absent,
  the empty string or an object.
  \<^item> \<open>readManagedSecretsState\<close> returns a view that has exactly the keys, other than
    \<open>__proto__\<close>, that have a managed list; the view of a key has one record for each
    entry, in the order of the list, with the entry's comment and with \<open>selected\<close> true
    exactly when the entry's value equals (\<open>===\<close>) the active value \<open>secrets[key]\<close>. A
    record of the view has no value field: \<open>ManagedKeyState\<close> has only \<open>comment\<close> and
    \<open>selected\<close>.
  \<^item> A second such document whose lists have, key by key and position by position, the
    same comments and the same pattern of equality with its own active value gives the
    same view, whatever its values are.
\<close>

theorem manager_view_redacted:
  assumes load: "getSecretState d = Inr (JObject secrets)" and shape: "managed_usable secrets"
  shows
    "(\<exists>view. readManagedSecretsState d = Inr view \<and> view ''__proto__'' = None \<and>
        (\<forall>key. key \<noteq> ''__proto__'' \<longrightarrow>
           (managed_list secrets key = None \<longrightarrow> view key = None) \<and>
           (\<forall>L. managed_list secrets key = Some L \<longrightarrow>
              (\<exists>vs. view key = Some vs \<and> length vs = length L \<and>
                 (\<forall>i < length L.
                    state_comment (vs ! i) = Some (comment (L ! i)) \<and>
                    selected (vs ! i) = strict_eq (val (L ! i)) (property secrets key)))))) \<and>
     (\<forall>d2 secrets2.
        getSecretState d2 = Inr (JObject secrets2) \<and> managed_usable secrets2 \<and>
        (\<forall>key. key \<noteq> ''__proto__'' \<longrightarrow> rel_option
           (list_all2 (\<lambda>e e2. comment e = comment e2 \<and>
              strict_eq (val e) (property secrets key) =
              strict_eq (val e2) (property secrets2 key)))
           (managed_list secrets key) (managed_list secrets2 key)) \<longrightarrow>
        readManagedSecretsState d2 = readManagedSecretsState d)"
proof (intro conjI allI impI)
  show "\<exists>view. readManagedSecretsState d = Inr view \<and> view ''__proto__'' = None \<and>
        (\<forall>key. key \<noteq> ''__proto__'' \<longrightarrow>
           (managed_list secrets key = None \<longrightarrow> view key = None) \<and>
           (\<forall>L. managed_list secrets key = Some L \<longrightarrow>
              (\<exists>vs. view key = Some vs \<and> length vs = length L \<and>
                 (\<forall>i < length L.
                    state_comment (vs ! i) = Some (comment (L ! i)) \<and>
                    selected (vs ! i) = strict_eq (val (L ! i)) (property secrets key)))))"
    unfolding readManagedSecretsState_loaded [OF load shape] by simp
next
  fix d2 secrets2
  assume h: "getSecretState d2 = Inr (JObject secrets2) \<and> managed_usable secrets2 \<and>
        (\<forall>key. key \<noteq> ''__proto__'' \<longrightarrow> rel_option
           (list_all2 (\<lambda>e e2. comment e = comment e2 \<and>
              strict_eq (val e) (property secrets key) =
              strict_eq (val e2) (property secrets2 key)))
           (managed_list secrets key) (managed_list secrets2 key))"
  then have l2: "getSecretState d2 = Inr (JObject secrets2)" and s2: "managed_usable secrets2"
    by simp_all
  let ?f = "\<lambda>s key secret. ManagedKeyState (Some (comment secret))
                    (strict_eq (val secret) (property s key))"
  have "map_option (map (?f secrets2 key)) (managed_list secrets2 key) =
        map_option (map (?f secrets key)) (managed_list secrets key)"
    if k: "key \<noteq> ''__proto__''" for key
  proof -
    from h k have r: "rel_option
           (list_all2 (\<lambda>e e2. comment e = comment e2 \<and>
              strict_eq (val e) (property secrets key) =
              strict_eq (val e2) (property secrets2 key)))
           (managed_list secrets key) (managed_list secrets2 key)" by blast
    show ?thesis
    proof (cases "managed_list secrets key")
      case None
      with r show ?thesis by (cases "managed_list secrets2 key") simp_all
    next
      case (Some L)
      with r obtain L2 where L2: "managed_list secrets2 key = Some L2"
        and a: "list_all2 (\<lambda>e e2. comment e = comment e2 \<and>
              strict_eq (val e) (property secrets key) =
              strict_eq (val e2) (property secrets2 key)) L L2"
        by (cases "managed_list secrets2 key") simp_all
      from a have "map (?f secrets key) L = map (?f secrets2 key) L2"
        by (induction L L2 rule: list_all2_induct) simp_all
      with Some L2 show ?thesis by simp
    qed
  qed
  then show "readManagedSecretsState d2 = readManagedSecretsState d"
    unfolding readManagedSecretsState_loaded [OF load shape]
      readManagedSecretsState_loaded [OF l2 s2] by (simp add: fun_eq_iff)
qed

theorem manager_view_redacted_witness:
  "(\<exists>view. readManagedSecretsState (Some (Parses (JObject active_doc))) = Inr view \<and>
      view ''k'' = Some [ManagedKeyState (Some ''first'') True,
                         ManagedKeyState (Some ''second'') False] \<and>
      view ''other'' = None) \<and>
   readManagedSecretsState (Some (Parses (JObject other_doc))) =
     readManagedSecretsState (Some (Parses (JObject active_doc)))"
proof -
  let ?d = "Some (Parses (JObject active_doc))"
  have l: "getSecretState ?d = Inr (JObject active_doc)" by simp
  have u: "managed_usable active_doc"
    by (simp add: managed_usable_def active_doc_def property_def)
  have l2: "getSecretState (Some (Parses (JObject other_doc))) = Inr (JObject other_doc)"
    by simp
  have u2: "managed_usable other_doc"
    by (simp add: managed_usable_def other_doc_def property_def)
  have m: "managed_list active_doc key =
      (if key = ''k''
       then Some [ManagedKey ''first'' (Str ''a''), ManagedKey ''second'' (Str ''b'')]
       else None)" for key
    by (simp add: managed_list_def active_doc_def property_def)
  have m2: "managed_list other_doc key =
      (if key = ''k''
       then Some [ManagedKey ''first'' (Str ''X''), ManagedKey ''second'' (Str ''Y'')]
       else None)" for key
    by (simp add: managed_list_def other_doc_def property_def)
  have p: "property active_doc ''k'' = Str ''a''" by (simp add: active_doc_def property_def)
  have p2: "property other_doc ''k'' = Str ''X''" by (simp add: other_doc_def property_def)
  have pat: "\<forall>key. key \<noteq> ''__proto__'' \<longrightarrow> rel_option
           (list_all2 (\<lambda>e e2. comment e = comment e2 \<and>
              strict_eq (val e) (property active_doc key) =
              strict_eq (val e2) (property other_doc key)))
           (managed_list active_doc key) (managed_list other_doc key)"
    by (simp add: m m2 p p2)
  have k: "''k'' \<noteq> ''__proto__''" and ot: "''other'' \<noteq> ''__proto__''" by simp_all
  note t = manager_view_redacted [OF l u]
  from t [THEN conjunct1]
  obtain view where v: "readManagedSecretsState ?d = Inr view"
    and n: "\<forall>key. key \<noteq> ''__proto__'' \<longrightarrow>
           (managed_list active_doc key = None \<longrightarrow> view key = None) \<and>
           (\<forall>L. managed_list active_doc key = Some L \<longrightarrow>
              (\<exists>vs. view key = Some vs \<and> length vs = length L \<and>
                 (\<forall>i < length L.
                    state_comment (vs ! i) = Some (comment (L ! i)) \<and>
                    selected (vs ! i) = strict_eq (val (L ! i)) (property active_doc key))))"
    by (elim exE conjE)
  have o: "view ''other'' = None"
    using n [rule_format, OF ot, THEN conjunct1] by (simp add: m)
  from n [rule_format, OF k, THEN conjunct2, rule_format, OF m [of "''k''", simplified]]
  obtain vs where vk: "view ''k'' = Some vs" and len: "length vs = 2"
    and e: "\<forall>i < 2. state_comment (vs ! i) = Some (comment
                ([ManagedKey ''first'' (Str ''a''), ManagedKey ''second'' (Str ''b'')] ! i)) \<and>
              selected (vs ! i) = strict_eq (val
                ([ManagedKey ''first'' (Str ''a''), ManagedKey ''second'' (Str ''b'')] ! i))
                (property active_doc ''k'')"
    by (elim exE conjE) simp
  from len obtain x y where xy: "vs = [x, y]"
    by (cases vs; cases "tl vs") auto
  from e [rule_format, of 0] e [rule_format, of 1]
  have "x = ManagedKeyState (Some ''first'') True" "y = ManagedKeyState (Some ''second'') False"
    by (cases x; cases y; simp add: xy p)+
  with vk xy have kk: "view ''k'' = Some [ManagedKeyState (Some ''first'') True,
                         ManagedKeyState (Some ''second'') False]" by simp
  have a: "\<exists>view. readManagedSecretsState ?d = Inr view \<and>
      view ''k'' = Some [ManagedKeyState (Some ''first'') True,
                         ManagedKeyState (Some ''second'') False] \<and>
      view ''other'' = None"
    using v kk o by (intro exI conjI)
  have b: "readManagedSecretsState (Some (Parses (JObject other_doc))) =
      readManagedSecretsState ?d"
    using t [THEN conjunct2, rule_format, of "Some (Parses (JObject other_doc))" other_doc]
      l2 u2 pat
    by (intro conjI | simp)+
  from a b show ?thesis by (intro conjI)
qed

text \<open>
  The claim as it was stated is about every document. After \<open>writeSecret\<close> has put the
  string \<open>"ab"\<close> into the field \<open>managed\<close>, no key has a managed list, and the view has
  the keys \<open>"0"\<close> and \<open>"1"\<close>, the indices of the characters, each with one record that has
  no comment and is selected. And a list under the key \<open>__proto__\<close> of the managed object
  gets no key in the view.
\<close>

theorem manager_view_redacted_counterexample:
  "(\<exists>d' secrets' view. writeSecret None ''managed'' (Str ''ab'') = Inr d' \<and>
      getSecretState d' = Inr (JObject secrets') \<and>
      managed_list secrets' ''0'' = None \<and> managed_list secrets' ''1'' = None \<and>
      readManagedSecretsState d' = Inr view \<and>
      view ''0'' = Some [ManagedKeyState None True] \<and>
      view ''1'' = Some [ManagedKeyState None True]) \<and>
   managed_list proto_doc ''__proto__'' = Some [ManagedKey ''c'' (Str ''v'')] \<and>
   (\<exists>view. readManagedSecretsState (Some (Parses (JObject proto_doc))) = Inr view \<and>
      view ''__proto__'' = None)"
proof -
  have l: "getSecretState None = Inr (JObject INITIAL_STATE)" by simp
  have m: "''managed'' \<notin> set Object_prototype_names" by code_simp
  let ?t = "JSON_object (assign INITIAL_STATE ''managed'' (Str ''ab''))"
  have w: "writeSecret None ''managed'' (Str ''ab'') =
      Inr (updateSecretState (JObject (assign INITIAL_STATE ''managed'' (Str ''ab''))))"
    by (rule writeSecret_loaded [OF l])
  have g: "getSecretState (updateSecretState (JObject (assign INITIAL_STATE ''managed'' (Str ''ab''))))
      = Inr (JObject ?t)" by simp
  have p: "property ?t ''managed'' = Str ''ab''"
    by (rule property_after_assign_same [OF m]) simp_all
  have ml: "managed_list ?t k = None" for k by (simp add: managed_list_def p)
  have k0: "''0'' \<noteq> ''managed''" and k1: "''1'' \<noteq> ''managed''" by simp_all
  have i0: "inherited ''0'' = Undefined" and i1: "inherited ''1'' = Undefined"
    by (rule inherited_ordinary, code_simp)+
  have cl: "JSON_object INITIAL_STATE = INITIAL_STATE" by simp
  have p0: "property ?t ''0'' = Undefined"
    unfolding property_after_assign_other [OF cl k0]
    by (simp add: property_def INITIAL_STATE_def i0)
  have p1: "property ?t ''1'' = Undefined"
    unfolding property_after_assign_other [OF cl k1]
    by (simp add: property_def INITIAL_STATE_def i1)
  have ks: "index_key 0 = ''0''" "index_key (Suc 0) = ''1''" by code_simp+
  have v: "readManagedSecretsState
        (updateSecretState (JObject (assign INITIAL_STATE ''managed'' (Str ''ab'')))) =
      Inr (\<lambda>key. if key \<in> set [''0'', ''1'']
             then Some [ManagedKeyState None (strict_eq (property ?t key) Undefined)]
             else None)"
    unfolding readManagedSecretsState_def g by (simp add: p ks del: index_key.simps)
  have a: "\<exists>d' secrets' view. writeSecret None ''managed'' (Str ''ab'') = Inr d' \<and>
      getSecretState d' = Inr (JObject secrets') \<and>
      managed_list secrets' ''0'' = None \<and> managed_list secrets' ''1'' = None \<and>
      readManagedSecretsState d' = Inr view \<and>
      view ''0'' = Some [ManagedKeyState None True] \<and>
      view ''1'' = Some [ManagedKeyState None True]"
    unfolding w
    by (intro exI conjI, rule refl, rule g, rule ml, rule ml, rule v) (simp_all add: p0 p1)
  have lp: "getSecretState (Some (Parses (JObject proto_doc))) = Inr (JObject proto_doc)"
    by simp
  have pm: "property proto_doc ''managed'' = Obj [''__proto__'' \<mapsto> [ManagedKey ''c'' (Str ''v'')]]"
    by (simp add: proto_doc_def property_def)
  have b: "managed_list proto_doc ''__proto__'' = Some [ManagedKey ''c'' (Str ''v'')]"
    by (simp add: managed_list_def pm)
  have up: "managed_usable proto_doc" by (simp add: managed_usable_def pm)
  have c: "\<exists>view. readManagedSecretsState (Some (Parses (JObject proto_doc))) = Inr view \<and>
      view ''__proto__'' = None"
    unfolding readManagedSecretsState_loaded [OF lp up] by simp
  from a b c show ?thesis by (intro conjI)
qed

subsection \<open>C8: splice\<close>




subsection \<open>C9: append and splice leave the active values alone\<close>

text \<open>
  Claim C9, as amended. Whenever \<open>appendManagedKey\<close> or \<open>spliceManagedKey\<close> returns, for
  any key, comment, value and index, every field of the document other than the field
  \<open>managed\<close> reads afterwards as it read before; in particular the active value of a key
  other than \<open>managed\<close>, also when splice removed the entry that carried it. On a file
  that loads as a document, splice always returns, and append returns when the field
  \<open>managed\<close> is absent, empty or an object and the key has a list or is not a name of
  \<open>Object.prototype\<close>.
\<close>

theorem append_splice_keep_flat:
  "(appendManagedKey d key cmt v = Inr d' \<longrightarrow>
      (\<forall>k. k \<noteq> ''managed'' \<longrightarrow> readSecret d' k = readSecret d k)) \<and>
   (spliceManagedKey d key i = Inr d' \<longrightarrow>
      (\<forall>k. k \<noteq> ''managed'' \<longrightarrow> readSecret d' k = readSecret d k)) \<and>
   (\<forall>secrets. getSecretState d = Inr (JObject secrets) \<longrightarrow>
      (managed_usable secrets \<and>
       (managed_list secrets key \<noteq> None \<or> key \<notin> set Object_prototype_names) \<longrightarrow>
         (\<exists>d1. appendManagedKey d key cmt v = Inr d1)) \<and>
      (\<exists>d2. spliceManagedKey d key i = Inr d2))"
proof (intro conjI allI impI)
  fix k :: string
  assume a: "appendManagedKey d key cmt v = Inr d'" and k: "k \<noteq> ''managed''"
  from a obtain secrets where load: "getSecretState d = Inr (JObject secrets)"
    by (cases "getSecretState d"; cases "projr (getSecretState d)")
       (auto simp: appendManagedKey_def)
  have cl: "JSON_object secrets = secrets" by (rule loaded_clean [OF load])
  show "readSecret d' k = readSecret d k"
    using a unfolding appendManagedKey_cases [OF load]
    by (auto simp: readSecret_loaded [OF load] property_after_assign_other [OF cl k]
          split: if_splits)
next
  fix k :: string
  assume a: "spliceManagedKey d key i = Inr d'" and k: "k \<noteq> ''managed''"
  show "readSecret d' k = readSecret d k"
  proof (cases "\<exists>secrets L. getSecretState d = Inr (JObject secrets) \<and>
      managed_list secrets key = Some L \<and> \<not> less_than_zero i \<and> \<not> at_least i (length L)")
    case True
    then obtain secrets L where load: "getSecretState d = Inr (JObject secrets)"
      and L: "managed_list secrets key = Some L" "\<not> less_than_zero i"
        "\<not> at_least i (length L)"
      by blast
    have cl: "JSON_object secrets = secrets" by (rule loaded_clean [OF load])
    show ?thesis
      using a unfolding spliceManagedKey_loaded [OF load L]
      by (auto simp: readSecret_loaded [OF load] property_after_assign_other [OF cl k])
  next
    case False
    have "d' = d"
    proof (cases "getSecretState d")
      case (Inl e)
      with a show ?thesis by (simp add: spliceManagedKey_def)
    next
      case (Inr j)
      show ?thesis
      proof (cases j)
        case JNull
        with Inr a show ?thesis by (simp add: spliceManagedKey_def)
      next
        case (JPrimitive p)
        with Inr a show ?thesis by (simp add: spliceManagedKey_def)
      next
        case (JObject secrets)
        with Inr have load: "getSecretState d = Inr (JObject secrets)" by simp
        from False load have "managed_list secrets key = None \<or>
            (\<exists>L. managed_list secrets key = Some L \<and>
               (less_than_zero i \<or> at_least i (length L)))"
          by (cases "managed_list secrets key") auto
        from spliceManagedKey_noop [OF load this] a show ?thesis by simp
      qed
    qed
    then show ?thesis by simp
  qed
next
  fix secrets
  assume load: "getSecretState d = Inr (JObject secrets)"
    and h: "managed_usable secrets \<and>
       (managed_list secrets key \<noteq> None \<or> key \<notin> set Object_prototype_names)"
  show "\<exists>d1. appendManagedKey d key cmt v = Inr d1"
    using h unfolding appendManagedKey_cases [OF load] managed_list_eq_map by simp
next
  fix secrets
  assume load: "getSecretState d = Inr (JObject secrets)"
  show "\<exists>d2. spliceManagedKey d key i = Inr d2"
  proof (cases "\<exists>L. managed_list secrets key = Some L \<and> \<not> less_than_zero i \<and>
      \<not> at_least i (length L)")
    case True
    then obtain L where L: "managed_list secrets key = Some L" "\<not> less_than_zero i"
        "\<not> at_least i (length L)" by blast
    show ?thesis unfolding spliceManagedKey_loaded [OF load L] by simp
  next
    case False
    then have "managed_list secrets key = None \<or>
        (\<exists>L. managed_list secrets key = Some L \<and>
           (less_than_zero i \<or> at_least i (length L)))"
      by (cases "managed_list secrets key") auto
    from spliceManagedKey_noop [OF load this] show ?thesis by simp
  qed
qed

theorem append_splice_keep_flat_witness:
  "(\<exists>d'. appendManagedKey (Some (Parses (JObject active_doc))) ''k'' ''third'' (Str ''c'') = Inr d' \<and>
      readSecret d' ''k'' = Inr (Str ''a'')) \<and>
   (\<exists>d'. spliceManagedKey (Some (Parses (JObject active_doc))) ''k'' (Finite 0) = Inr d' \<and>
      readSecret d' ''k'' = Inr (Str ''a'') \<and>
      probeManagedKey d' ''k'' = Inr \<lparr>result = False, index = -1\<rparr>)"
proof -
  let ?d = "Some (Parses (JObject active_doc))"
  let ?L = "[ManagedKey ''first'' (Str ''a''), ManagedKey ''second'' (Str ''b'')]"
  have l: "getSecretState ?d = Inr (JObject active_doc)" by simp
  have u: "managed_usable active_doc"
    by (simp add: managed_usable_def active_doc_def property_def)
  have m: "managed_list active_doc ''k'' = Some ?L"
    by (simp add: managed_list_def active_doc_def property_def)
  have r: "readSecret ?d ''k'' = Inr (Str ''a'')"
    unfolding readSecret_loaded [OF l] by (simp add: active_doc_def property_def)
  have k: "''k'' \<noteq> ''managed''" by simp
  note t = append_splice_keep_flat [of ?d "''k''" "''third''" "Str ''c''" _ "Finite 0"]
  have mk: "managed_usable active_doc \<and>
      (managed_list active_doc ''k'' \<noteq> None \<or> ''k'' \<notin> set Object_prototype_names)"
    using u m by simp
  from t [THEN conjunct2, THEN conjunct2, rule_format, OF l, THEN conjunct1, rule_format, OF mk]
  obtain d1 where a1: "appendManagedKey ?d ''k'' ''third'' (Str ''c'') = Inr d1" ..
  from t [THEN conjunct2, THEN conjunct2, rule_format, OF l, THEN conjunct2]
  obtain d2 where a2: "spliceManagedKey ?d ''k'' (Finite 0) = Inr d2" ..
  have r1: "readSecret d1 ''k'' = readSecret ?d ''k''"
    using t [of d1, THEN conjunct1, rule_format, OF a1 k] .
  have r2: "readSecret d2 ''k'' = readSecret ?d ''k''"
    using t [of d2, THEN conjunct2, THEN conjunct1, rule_format, OF a2 k] .
  have s: "spliceManagedKey ?d ''k'' (Finite 0) =
      Inr (updateSecretState (JObject (assign active_doc ''managed''
             (Obj ((managed_map active_doc)(''k'' \<mapsto> [ManagedKey ''second'' (Str ''b'')]))))))"
    using spliceManagedKey_loaded [OF l m, of "Finite 0"] by simp
  let ?t = "JSON_object (assign active_doc ''managed''
             (Obj ((managed_map active_doc)(''k'' \<mapsto> [ManagedKey ''second'' (Str ''b'')]))))"
  have cl: "JSON_object active_doc = active_doc" by simp
  have l2: "getSecretState d2 = Inr (JObject ?t)" using a2 unfolding s by auto
  have m2: "managed_list ?t ''k'' = Some [ManagedKey ''second'' (Str ''b'')]"
    unfolding managed_after_set [OF cl] by simp
  have p2: "property ?t ''k'' = Str ''a''"
    using r2 r unfolding readSecret_loaded [OF l2] by simp
  have pr: "probeManagedKey d2 ''k'' = Inr \<lparr>result = False, index = -1\<rparr>"
    unfolding probeManagedKey_loaded [OF l2] m2 p2 by simp
  from a1 a2 r1 r2 r pr show ?thesis by simp
qed

text \<open>
  The claim as it was stated is about every key. The field \<open>managed\<close> is in the same
  object as the active values, and \<open>readSecret\<close> with the key \<open>managed\<close> returns it: on a
  store without a file the active value of the key \<open>managed\<close> is the empty object
  before \<open>appendManagedKey\<close> with that key, and the object with the new list after it.
\<close>

theorem append_splice_keep_flat_counterexample:
  "readSecret None ''managed'' = Inr (Obj Map.empty) \<and>
   (\<exists>d'. appendManagedKey None ''managed'' ''c'' (Str ''v'') = Inr d' \<and>
      readSecret d' ''managed'' = Inr (Obj [''managed'' \<mapsto> [ManagedKey ''c'' (Str ''v'')]]))"
proof -
  have l: "getSecretState None = Inr (JObject INITIAL_STATE)" by simp
  have p: "property INITIAL_STATE ''managed'' = Obj Map.empty"
    by (simp add: INITIAL_STATE_def property_def)
  have u: "managed_usable INITIAL_STATE" by (simp add: managed_usable_def p)
  have mm: "managed_map INITIAL_STATE = Map.empty" by (simp add: managed_map_def p)
  have k: "''managed'' \<notin> set Object_prototype_names" by code_simp
  have a: "appendManagedKey None ''managed'' ''c'' (Str ''v'') =
      Inr (updateSecretState (JObject (assign INITIAL_STATE ''managed''
        (Obj [''managed'' \<mapsto> [ManagedKey ''c'' (Str ''v'')]]))))"
    unfolding appendManagedKey_cases [OF l] using u k by (simp add: mm)
  have r: "readSecret None ''managed'' = Inr (Obj Map.empty)"
    unfolding readSecret_loaded [OF l] p ..
  have "property (JSON_object (assign INITIAL_STATE ''managed''
        (Obj [''managed'' \<mapsto> [ManagedKey ''c'' (Str ''v'')]]))) ''managed'' =
      Obj [''managed'' \<mapsto> [ManagedKey ''c'' (Str ''v'')]]"
    by (rule property_after_assign_same [OF k]) (auto simp: fun_eq_iff)
  with a r show ?thesis by simp
qed

subsection \<open>C10: the key named managed\<close>

text \<open>
  Claim C10. The lists live in the field \<open>managed\<close> of the same object that holds the
  flat values. So, on a file that loads as a document: \<open>writeSecret\<close> with the key
  \<open>managed\<close> and a string leaves that string in the field, and no key has a managed list
  any more; \<open>deleteSecret\<close> with the key \<open>managed\<close> removes the field, and again no key
  has a list. With any other key, \<open>writeSecret\<close> (of any value) and \<open>deleteSecret\<close> leave
  the field \<open>managed\<close>, and so every list, as it was.
\<close>

theorem managed_is_a_key:
  assumes load: "getSecretState d = Inr (JObject secrets)"
  shows
    "(\<exists>d' secrets'. writeSecret d ''managed'' (Str v) = Inr d' \<and>
        getSecretState d' = Inr (JObject secrets') \<and> property secrets' ''managed'' = Str v \<and>
        (\<forall>k. managed_list secrets' k = None)) \<and>
     (\<exists>d' secrets'. deleteSecret d ''managed'' = Inr d' \<and>
        getSecretState d' = Inr (JObject secrets') \<and>
        property secrets' ''managed'' = Undefined \<and>
        (\<forall>k. managed_list secrets' k = None)) \<and>
     (\<forall>key w. key \<noteq> ''managed'' \<longrightarrow>
        (\<exists>d' secrets'. writeSecret d key w = Inr d' \<and>
           getSecretState d' = Inr (JObject secrets') \<and>
           property secrets' ''managed'' = property secrets ''managed'' \<and>
           (\<forall>k. managed_list secrets' k = managed_list secrets k)) \<and>
        (\<exists>d' secrets'. deleteSecret d key = Inr d' \<and>
           getSecretState d' = Inr (JObject secrets') \<and>
           property secrets' ''managed'' = property secrets ''managed'' \<and>
           (\<forall>k. managed_list secrets' k = managed_list secrets k)))"
proof -
  have cl: "JSON_object secrets = secrets" by (rule loaded_clean [OF load])
  have m: "''managed'' \<notin> set Object_prototype_names" by code_simp
  have a: "property (JSON_object (assign secrets ''managed'' (Str v))) ''managed'' = Str v"
    by (rule property_after_assign_same [OF m]) simp_all
  have b: "property (JSON_object (secrets(''managed'' := None))) ''managed'' = Undefined"
    by (simp add: property_JSON_object inherited_ordinary [OF m])
  have c: "property (JSON_object (assign secrets key w)) ''managed'' = property secrets ''managed''"
    if "key \<noteq> ''managed''" for key w
    using property_after_assign_other [OF cl, of "''managed''" key w] that by simp
  have e: "property (JSON_object (secrets(key := None))) ''managed'' = property secrets ''managed''"
    if "key \<noteq> ''managed''" for key
  proof -
    have "property (JSON_object (secrets(key := None))) ''managed'' =
        property (JSON_object secrets) ''managed''"
      by (rule property_JSON_object_cong) (use that in simp)
    with cl show ?thesis by simp
  qed
  show ?thesis
    by (simp add: writeSecret_loaded [OF load] deleteSecret_loaded [OF load] managed_list_def
          a b c e)
qed

theorem managed_is_a_key_witness:
  "(\<exists>d' secrets'. writeSecret (Some (Parses (JObject active_doc))) ''managed'' (Str ''x'') = Inr d' \<and>
      getSecretState d' = Inr (JObject secrets') \<and> property secrets' ''managed'' = Str ''x'' \<and>
      managed_list secrets' ''k'' = None) \<and>
   (\<exists>d' secrets'. deleteSecret (Some (Parses (JObject active_doc))) ''managed'' = Inr d' \<and>
      getSecretState d' = Inr (JObject secrets') \<and> managed_list secrets' ''k'' = None) \<and>
   (\<exists>d' secrets'. writeSecret (Some (Parses (JObject active_doc))) ''k'' (Str ''x'') = Inr d' \<and>
      getSecretState d' = Inr (JObject secrets') \<and>
      managed_list secrets' ''k'' =
        Some [ManagedKey ''first'' (Str ''a''), ManagedKey ''second'' (Str ''b'')])"
proof -
  let ?d = "Some (Parses (JObject active_doc))"
  have l: "getSecretState ?d = Inr (JObject active_doc)" by simp
  have m: "managed_list active_doc ''k'' =
      Some [ManagedKey ''first'' (Str ''a''), ManagedKey ''second'' (Str ''b'')]"
    by (simp add: managed_list_def active_doc_def property_def)
  have k: "''k'' \<noteq> ''managed''" by simp
  note t = managed_is_a_key [OF l, of "''x''"]
  from t [THEN conjunct1]
  obtain d1 s1 where w1: "writeSecret ?d ''managed'' (Str ''x'') = Inr d1"
    and g1: "getSecretState d1 = Inr (JObject s1)" and p1: "property s1 ''managed'' = Str ''x''"
    and n1: "\<forall>k. managed_list s1 k = None"
    by (elim exE conjE)
  from t [THEN conjunct2, THEN conjunct1]
  obtain d2 s2 where w2: "deleteSecret ?d ''managed'' = Inr d2"
    and g2: "getSecretState d2 = Inr (JObject s2)" and n2: "\<forall>k. managed_list s2 k = None"
    by (elim exE conjE)
  from t [THEN conjunct2, THEN conjunct2, rule_format, OF k, THEN conjunct1, of "Str ''x''"]
  obtain d3 s3 where w3: "writeSecret ?d ''k'' (Str ''x'') = Inr d3"
    and g3: "getSecretState d3 = Inr (JObject s3)"
    and n3: "\<forall>k. managed_list s3 k = managed_list active_doc k"
    by (elim exE conjE)
  have a: "\<exists>d' secrets'. writeSecret ?d ''managed'' (Str ''x'') = Inr d' \<and>
      getSecretState d' = Inr (JObject secrets') \<and> property secrets' ''managed'' = Str ''x'' \<and>
      managed_list secrets' ''k'' = None"
    using w1 g1 p1 n1 [rule_format, of "''k''"] by (intro exI conjI)
  have b: "\<exists>d' secrets'. deleteSecret ?d ''managed'' = Inr d' \<and>
      getSecretState d' = Inr (JObject secrets') \<and> managed_list secrets' ''k'' = None"
    using w2 g2 n2 [rule_format, of "''k''"] by (intro exI conjI)
  have c: "\<exists>d' secrets'. writeSecret ?d ''k'' (Str ''x'') = Inr d' \<and>
      getSecretState d' = Inr (JObject secrets') \<and>
      managed_list secrets' ''k'' =
        Some [ManagedKey ''first'' (Str ''a''), ManagedKey ''second'' (Str ''b'')]"
    using w3 g3 n3 [rule_format, of "''k''", unfolded m] by (intro exI conjI)
  from a b c show ?thesis by (intro conjI)
qed

end
